theory Spec2Isabelle
  imports Complex_Main "HOL-Library.Multiset" "HOL-Library.AList"
begin

section \<open>Python exceptions\<close>

text \<open>
  The exceptions the modelled code can raise. A function that may raise returns
  \<open>error + 'a\<close> (\<open>Inl\<close> the exception); a function that mutates objects before it
  raises returns the exception together with the state it leaves behind.
\<close>

datatype error =
  AttributeError | ValueError | IndexError | KeyError | TypeError | ZeroDivisionError

section \<open>Filename validation (tableAssignments.py, tableAssignments_v1.py)\<close>

text \<open>
  \<^verbatim>\<open>pattern = r"(\d+)-(\d+)-(\d+)-(\d+)-(\d+)-Schedule\.csv"\<close> and
  \<^verbatim>\<open>match = re.match(pattern, filename)\<close>.

  File names are modelled as strings of 8-bit characters; among these the class
  \<^verbatim>\<open>\d\<close> holds exactly the ten ASCII digits. Every group \<^verbatim>\<open>(\d+)\<close> is followed
  in the pattern by the literal \<^verbatim>\<open>-\<close>, which is no digit, so the only way a group can
  match is to take the maximal run of digits; the matcher below does that, one pattern
  element after the other, anchored at the start of the string only.
\<close>

definition is_digit :: "char \<Rightarrow> bool" where
  "is_digit c = (c \<in> set ''0123456789'')"

definition match_digits :: "string \<Rightarrow> (string \<times> string) option" where
  "match_digits s =
     (case takeWhile is_digit s of
        [] \<Rightarrow> None
      | d # ds \<Rightarrow> Some (d # ds, dropWhile is_digit s))"

definition match_literal :: "string \<Rightarrow> string \<Rightarrow> string option" where
  "match_literal lit s =
     (if take (length lit) s = lit then Some (drop (length lit) s) else None)"

definition match_group :: "string \<Rightarrow> string \<Rightarrow> (string \<times> string) option" where
  "match_group lit s =
     (case match_digits s of
        None \<Rightarrow> None
      | Some (g, r) \<Rightarrow>
          (case match_literal lit r of None \<Rightarrow> None | Some r' \<Rightarrow> Some (g, r')))"

type_synonym groups = "string \<times> string \<times> string \<times> string \<times> string"

definition re_match_schedule :: "string \<Rightarrow> groups option" where
  "re_match_schedule s =
     (case match_group ''-'' s of None \<Rightarrow> None | Some (g1, r1) \<Rightarrow>
      case match_group ''-'' r1 of None \<Rightarrow> None | Some (g2, r2) \<Rightarrow>
      case match_group ''-'' r2 of None \<Rightarrow> None | Some (g3, r3) \<Rightarrow>
      case match_group ''-'' r3 of None \<Rightarrow> None | Some (g4, r4) \<Rightarrow>
      case match_group ''-Schedule.csv'' r4 of None \<Rightarrow> None | Some (g5, r5) \<Rightarrow>
        Some (g1, g2, g3, g4, g5))"

definition parse_filename :: "string \<Rightarrow> error + groups" where
  "parse_filename filename =
     (case re_match_schedule filename of
        None \<Rightarrow> Inl ValueError
      | Some gs \<Rightarrow> Inr gs)"

text \<open>\<^verbatim>\<open>TableAssignmentManager.validate_filename\<close> applies the same pattern to
  \<^verbatim>\<open>self.filename\<close>.\<close>

definition validate_filename :: "string \<Rightarrow> error + groups" where
  "validate_filename filename =
     (case re_match_schedule filename of
        None \<Rightarrow> Inl ValueError
      | Some gs \<Rightarrow> Inr gs)"

definition digits :: "string \<Rightarrow> bool" where
  "digits g = (g \<noteq> [] \<and> list_all is_digit g)"


section \<open>Tables and matches (tableAssignments_v1.py, tableAssignments_v2.py)\<close>

text \<open>
  Team numbers are Python integers. \<^verbatim>\<open>Table\<close> objects are shared and mutated in place
  (the manager's dictionary, every week's set of available tables and every assigned
  match point to the same objects), so the tables live in a store, the list of the
  objects in the order of \<^verbatim>\<open>self.tables.values()\<close>, and a reference to a table is
  its position in the store. The store never grows or shrinks after
  \<^verbatim>\<open>initialize_tables\<close>.
\<close>

type_synonym team = int
type_synonym table_ref = nat

text \<open>\<^verbatim>\<open>team_usage\<close> is a \<^verbatim>\<open>defaultdict(int)\<close>: a dictionary, here the list of its
  items in insertion order, read with the default 0. (Reading a missing key also
  stores the 0; no lookup and no sum can tell the difference, and the model leaves the
  dictionary as it is.)\<close>

record Table =
  table_id :: string
  team_usage :: "(team \<times> int) list"
  last_used_by :: "team list"

definition Table_init :: "string \<Rightarrow> Table" where
  "Table_init tid = \<lparr>table_id = tid, team_usage = [], last_used_by = []\<rparr>"

definition get_usage :: "Table \<Rightarrow> team \<Rightarrow> int" where
  "get_usage t tm = (case map_of (team_usage t) tm of None \<Rightarrow> 0 | Some n \<Rightarrow> n)"

definition add_team :: "team \<Rightarrow> Table \<Rightarrow> Table" where
  "add_team tm t =
     t\<lparr>team_usage := AList.update tm (get_usage t tm + 1) (team_usage t),
       last_used_by := last_used_by t @ [tm]\<rparr>"

record Match =
  home_team :: team
  away_team :: team
  assigned_table :: "table_ref option"

definition Match_init :: "team \<times> team \<Rightarrow> Match" where
  "Match_init p = \<lparr>home_team = fst p, away_team = snd p, assigned_table = None\<rparr>"

text \<open>\<^verbatim>\<open>Match.assign_table\<close>: the match points to the table, and the table records the
  home team, then the away team.\<close>

definition assign_table :: "Match \<Rightarrow> table_ref \<Rightarrow> Table list \<Rightarrow> Match \<times> Table list" where
  "assign_table m r ts =
     (m\<lparr>assigned_table := Some r\<rparr>,
      ts[r := add_team (away_team m) (add_team (home_team m) (ts ! r))])"

text \<open>\<^verbatim>\<open>str(team) == str(self.bye_team_id)\<close>, for a bye team id that is an integer or
  \<^verbatim>\<open>None\<close> (\<^verbatim>\<open>str(None)\<close> is no numeral).\<close>

definition same_str :: "team \<Rightarrow> int option \<Rightarrow> bool" where
  "same_str tm bye = (bye = Some tm)"

definition has_bye :: "Match \<Rightarrow> int option \<Rightarrow> bool" where
  "has_bye m bye = (same_str (home_team m) bye \<or> same_str (away_team m) bye)"

text \<open>A loop whose body may raise: the first exception ends it.\<close>

fun mapM :: "('a \<Rightarrow> error + 'b) \<Rightarrow> 'a list \<Rightarrow> error + 'b list" where
  "mapM f [] = Inr []"
| "mapM f (x # xs) =
     (case f x of
        Inl e \<Rightarrow> Inl e
      | Inr y \<Rightarrow> (case mapM f xs of Inl e \<Rightarrow> Inl e | Inr ys \<Rightarrow> Inr (y # ys)))"

text \<open>Python's \<^verbatim>\<open>min\<close> and \<^verbatim>\<open>max\<close> of a sequence of integers; \<^verbatim>\<open>ValueError\<close> on an
  empty one.\<close>

definition py_min :: "int list \<Rightarrow> error + int" where
  "py_min xs = (case xs of [] \<Rightarrow> Inl ValueError | y # ys \<Rightarrow> Inr (fold min ys y))"

definition py_max :: "int list \<Rightarrow> error + int" where
  "py_max xs = (case xs of [] \<Rightarrow> Inl ValueError | y # ys \<Rightarrow> Inr (fold max ys y))"

section \<open>Weeks of tableAssignments_v1.py\<close>

text \<open>
  The attributes of a \<^verbatim>\<open>Week\<close>. \<^verbatim>\<open>global_usage\<close>, \<^verbatim>\<open>team_least_used\<close> and
  \<^verbatim>\<open>total_tables\<close> start as \<^verbatim>\<open>None\<close>. \<^verbatim>\<open>find_best_table\<close> reads an attribute
  \<^verbatim>\<open>self.tables\<close>; the field \<open>tables\<close> stands for it, with \<open>None\<close> for an object
  that has no such attribute. \<^verbatim>\<open>previous_week\<close> is left out: only
  \<^verbatim>\<open>get_team_previous_table\<close> reads it, and nothing calls that method.
  A set of tables is kept as the list of its elements in the order in which Python
  iterates over it; \<^verbatim>\<open>team_least_used\<close> is only tested for membership and is a set.
\<close>

record Week =
  week_id :: int
  date :: string
  matches :: "Match list"
  available_tables :: "table_ref list"
  num_teams :: nat
  bye_team_id :: "int option"
  total_weeks :: int
  global_usage :: "(team \<Rightarrow> string \<rightharpoonup> int) option"
  team_least_used :: "(team \<rightharpoonup> table_ref set) option"
  total_tables :: "nat option"
  tables :: "table_ref list option"

definition Week_init ::
  "int \<Rightarrow> string \<Rightarrow> (team \<times> team) list \<Rightarrow> int option \<Rightarrow> nat \<Rightarrow> int \<Rightarrow> Week" where
  "Week_init wid d ms bye n tw =
     \<lparr>week_id = wid, date = d, matches = map Match_init ms, available_tables = [],
      num_teams = n, bye_team_id = bye, total_weeks = tw, global_usage = None,
      team_least_used = None, total_tables = None, tables = None\<rparr>"

text \<open>\<^verbatim>\<open>calculate_usage_stats\<close>. The teams are \<^verbatim>\<open>range(1, self.num_teams + 1)\<close> without
  the bye team. \<^verbatim>\<open>global_usage[team]\<close> is a dictionary keyed by \<^verbatim>\<open>table_id\<close>, written
  once per table in store order, so a later table with the same id overwrites an
  earlier one.\<close>

definition counted_teams :: "nat \<Rightarrow> int option \<Rightarrow> team list" where
  "counted_teams n bye = filter (\<lambda>tm. \<not> same_str tm bye) [1..int n]"

definition usage_by_id :: "Table list \<Rightarrow> team \<Rightarrow> string \<rightharpoonup> int" where
  "usage_by_id ts tm = map_of (rev (map (\<lambda>t. (table_id t, get_usage t tm)) ts))"

definition dict_get :: "('k \<rightharpoonup> 'v) \<Rightarrow> 'k \<Rightarrow> error + 'v" where
  "dict_get d k = (case d k of None \<Rightarrow> Inl KeyError | Some v \<Rightarrow> Inr v)"

definition least_used :: "Table list \<Rightarrow> (string \<rightharpoonup> int) \<Rightarrow> error + table_ref set" where
  "least_used ts gu =
     (case mapM (\<lambda>r. case dict_get gu (table_id (ts ! r)) of
                        Inl e \<Rightarrow> Inl e | Inr u \<Rightarrow> Inr (r, u)) [0..<length ts] of
        Inl e \<Rightarrow> Inl e
      | Inr usages \<Rightarrow>
          (case py_min (map snd usages) of
             Inl e \<Rightarrow> Inl e
           | Inr min_usage \<Rightarrow> Inr (fst ` set (filter (\<lambda>p. snd p = min_usage) usages))))"

definition calculate_usage_stats :: "Week \<Rightarrow> Table list \<Rightarrow> int option \<Rightarrow> error option \<times> Week" where
  "calculate_usage_stats w ts bye =
     (let teams = counted_teams (num_teams w) bye;
          gu = (\<lambda>tm. if tm \<in> set teams then usage_by_id ts tm else Map.empty);
          w1 = w\<lparr>global_usage := Some gu\<rparr>
      in case mapM (\<lambda>tm. case least_used ts (gu tm) of
                           Inl e \<Rightarrow> Inl e | Inr s \<Rightarrow> Inr (tm, s)) teams of
           Inl e \<Rightarrow> (Some e, w1\<lparr>team_least_used := Some Map.empty\<rparr>)
         | Inr lu \<Rightarrow> (None, w1\<lparr>team_least_used := Some (map_of lu)\<rparr>))"

text \<open>\<^verbatim>\<open>find_best_table\<close>, the body of the loop over the available tables: the score
  of one table, \<^verbatim>\<open>(penalties, usage_spread, sum(future_usages.values()))\<close>.\<close>

type_synonym score = "int \<times> int \<times> int"

definition consecutive_penalty :: "Table \<Rightarrow> Match \<Rightarrow> int" where
  "consecutive_penalty t m =
     (if length (last_used_by t) \<ge> 1
         \<and> (home_team m = last (last_used_by t) \<or> away_team m = last (last_used_by t))
      then 100 else 0)"

definition least_used_penalty :: "Week \<Rightarrow> table_ref \<Rightarrow> team \<Rightarrow> error + int" where
  "least_used_penalty w r tm =
     (case team_least_used w of
        None \<Rightarrow> Inl TypeError
      | Some lu \<Rightarrow>
          (case dict_get lu tm of
             Inl e \<Rightarrow> Inl e
           | Inr s \<Rightarrow> Inr (if r \<notin> s then 50 else 0)))"

definition future_usage :: "Week \<Rightarrow> Table \<Rightarrow> Match \<Rightarrow> team \<Rightarrow> error + int" where
  "future_usage w t m tm =
     (case global_usage w of
        None \<Rightarrow> Inl TypeError
      | Some gu \<Rightarrow>
          (case dict_get (gu tm) (table_id t) of
             Inl e \<Rightarrow> Inl e
           | Inr u \<Rightarrow> Inr (if tm = home_team m \<or> tm = away_team m then u + 1 else u)))"

definition spread_penalty :: "int \<Rightarrow> int" where
  "spread_penalty usage_spread = (if usage_spread > 1 then usage_spread * 10 else 0)"

definition deviation_penalty :: "int \<Rightarrow> int \<Rightarrow> int" where
  "deviation_penalty ideal usage =
     (let deviation = \<bar>usage - ideal\<bar> in if deviation > 1 then deviation * 5 else 0)"

definition score_table :: "Week \<Rightarrow> Table list \<Rightarrow> Match \<Rightarrow> int option \<Rightarrow> int \<Rightarrow> table_ref \<Rightarrow> error + score" where
  "score_table w ts m bye ideal r =
     (let t = ts ! r; p1 = consecutive_penalty t m in
      case mapM (least_used_penalty w r) [home_team m, away_team m] of
        Inl e \<Rightarrow> Inl e
      | Inr p2 \<Rightarrow>
      case mapM (future_usage w t m) (counted_teams (num_teams w) bye) of
        Inl e \<Rightarrow> Inl e
      | Inr future_usages \<Rightarrow>
      case py_max future_usages of
        Inl e \<Rightarrow> Inl e
      | Inr max_usage \<Rightarrow>
      case py_min future_usages of
        Inl e \<Rightarrow> Inl e
      | Inr min_usage \<Rightarrow>
          (let usage_spread = max_usage - min_usage;
               penalties = p1 + sum_list p2 + spread_penalty usage_spread
                             + sum_list (map (deviation_penalty ideal) future_usages)
           in Inr (penalties, usage_spread, sum_list future_usages)))"

text \<open>Tuples of integers compare lexicographically; \<^verbatim>\<open>min(table_scores, key=...)\<close>
  keeps the first of the minimal elements.\<close>

definition score_less :: "score \<Rightarrow> score \<Rightarrow> bool" where
  "score_less a b =
     (case a of (a1, a2, a3) \<Rightarrow> case b of (b1, b2, b3) \<Rightarrow>
        a1 < b1 \<or> (a1 = b1 \<and> (a2 < b2 \<or> (a2 = b2 \<and> a3 < b3))))"

fun min_by_score :: "table_ref \<times> score \<Rightarrow> (table_ref \<times> score) list \<Rightarrow> table_ref \<times> score" where
  "min_by_score best [] = best"
| "min_by_score best (x # xs) =
     min_by_score (if score_less (snd x) (snd best) then x else best) xs"

text \<open>Line 109: \<^verbatim>\<open>ideal_usage_per_table = self.total_weeks // total_tables\<close>.\<close>

definition ideal_usage_per_table :: "int \<Rightarrow> nat \<Rightarrow> error + int" where
  "ideal_usage_per_table tw n =
     (if n = 0 then Inl ZeroDivisionError else Inr (tw div int n))"

definition table_scores ::
  "Week \<Rightarrow> Table list \<Rightarrow> Match \<Rightarrow> int option \<Rightarrow> int \<Rightarrow> error + (table_ref \<times> score) list" where
  "table_scores w ts m bye ideal =
     (if has_bye m bye then Inr []
      else mapM (\<lambda>r. case score_table w ts m bye ideal r of
                        Inl e \<Rightarrow> Inl e | Inr sc \<Rightarrow> Inr (r, sc)) (available_tables w))"

definition find_best_table :: "Week \<Rightarrow> Table list \<Rightarrow> Match \<Rightarrow> int option \<Rightarrow> error + table_ref option" where
  "find_best_table w ts m bye =
     (if available_tables w = [] then Inr None
      else case tables w of
        None \<Rightarrow> Inl AttributeError
      | Some tabs \<Rightarrow>
      case ideal_usage_per_table (total_weeks w) (length tabs) of
        Inl e \<Rightarrow> Inl e
      | Inr ideal \<Rightarrow>
      case table_scores w ts m bye ideal of
        Inl e \<Rightarrow> Inl e
      | Inr [] \<Rightarrow> Inl ValueError
      | Inr (s # ss) \<Rightarrow> Inr (Some (fst (min_by_score s ss))))"

text \<open>
  \<^verbatim>\<open>Week.assign_tables\<close>. The loop over \<^verbatim>\<open>self.matches\<close> returns the exception that
  ended it, if any, and the objects as the loop leaves them: the week (its set of
  available tables), the store and the matches. \<open>order\<close> is the order in which Python
  iterates over \<^verbatim>\<open>set(tables.values())\<close>, an enumeration of all table references.
\<close>

fun assign_loop ::
  "Week \<Rightarrow> Table list \<Rightarrow> Match list \<Rightarrow> error option \<times> Week \<times> Table list \<times> Match list" where
  "assign_loop w ts [] = (None, w, ts, [])"
| "assign_loop w ts (m # ms) =
     (if has_bye m (bye_team_id w)
      then (case assign_loop w ts ms of (e, w', ts', ms') \<Rightarrow> (e, w', ts', m # ms'))
      else case find_best_table w ts m (bye_team_id w) of
        Inl e \<Rightarrow> (Some e, w, ts, m # ms)
      | Inr None \<Rightarrow> (Some ValueError, w, ts, m # ms)
      | Inr (Some r) \<Rightarrow>
          (case assign_table m r ts of (m', ts') \<Rightarrow>
           case assign_loop (w\<lparr>available_tables := remove1 r (available_tables w)\<rparr>) ts' ms of
             (e, w', ts'', ms') \<Rightarrow> (e, w', ts'', m' # ms')))"

definition assign_tables :: "Week \<Rightarrow> Table list \<Rightarrow> table_ref list \<Rightarrow> error option \<times> Week \<times> Table list" where
  "assign_tables w ts order =
     (let w1 = w\<lparr>available_tables := order, total_tables := Some (length ts)\<rparr> in
      case assign_loop w1 ts (matches w1) of
        (e, w2, ts', ms') \<Rightarrow> (e, w2\<lparr>matches := ms'\<rparr>, ts'))"

text \<open>\<^verbatim>\<open>TableAssignmentManager.assign_all_tables\<close>: week after week, the usage statistics
  and then the assignment; an exception ends the loop. \<open>order i\<close> is the iteration
  order of the set of tables built for the week at position \<open>i\<close>.\<close>

fun assign_weeks ::
  "(nat \<Rightarrow> table_ref list) \<Rightarrow> nat \<Rightarrow> int option \<Rightarrow> Week list \<Rightarrow> Table list
     \<Rightarrow> error option \<times> Week list \<times> Table list" where
  "assign_weeks order i bye [] ts = (None, [], ts)"
| "assign_weeks order i bye (w # ws) ts =
     (case calculate_usage_stats w ts bye of
        (Some e, w1) \<Rightarrow> (Some e, w1 # ws, ts)
      | (None, w1) \<Rightarrow>
      case assign_tables w1 ts (order i) of
        (Some e, w2, ts') \<Rightarrow> (Some e, w2 # ws, ts')
      | (None, w2, ts') \<Rightarrow>
      case assign_weeks order (Suc i) bye ws ts' of
        (e, ws', ts'') \<Rightarrow> (e, w2 # ws', ts''))"

definition assign_all_tables ::
  "(nat \<Rightarrow> table_ref list) \<Rightarrow> int option \<Rightarrow> Week list \<Rightarrow> Table list
     \<Rightarrow> error option \<times> Week list \<times> Table list" where
  "assign_all_tables order bye ws ts = assign_weeks order 0 bye ws ts"



section \<open>The manager of tableAssignments_v1.py\<close>

text \<open>
  The division's entry of the JSON configuration, as \<^verbatim>\<open>get_table_config\<close> returns it;
  \<open>None\<close> is a key the entry does not have. The schedule file is given as the rows
  the CSV reader delivers that have at least two cells, with the week number and every
  match cell \<^verbatim>\<open>home-away\<close> already converted to integers (a cell that does not
  convert raises \<^verbatim>\<open>ValueError\<close> in the first pass of \<^verbatim>\<open>read_schedule\<close>, before
  anything below happens). The dictionary of team names only serves the report and is
  left out.
\<close>

record config =
  table_ids :: "string list option"
  table_keys :: "string list option"
  team_keys :: "string list option"
  bye_team_id_entry :: "int option option"

type_synonym row = "int \<times> string \<times> (team \<times> team) list"

definition lower :: "char \<Rightarrow> char" where
  "lower c = (case map_of (zip ''ABCDEFGHIJKLMNOPQRSTUVWXYZ'' ''abcdefghijklmnopqrstuvwxyz'') c of
                None \<Rightarrow> c | Some l \<Rightarrow> l)"

fun index_of_bye :: "nat \<Rightarrow> string list \<Rightarrow> int option" where
  "index_of_bye i [] = None"
| "index_of_bye i (k # ks) = (if map lower k = ''bye'' then Some (int i) else index_of_bye (Suc i) ks)"

definition initialize_team_names :: "config \<Rightarrow> error + int option" where
  "initialize_team_names cfg =
     (case bye_team_id_entry cfg of
        Some b \<Rightarrow> Inr b
      | None \<Rightarrow>
          (case team_keys cfg of
             None \<Rightarrow> Inl KeyError
           | Some ks \<Rightarrow> Inr (index_of_bye 0 ks)))"

text \<open>\<^verbatim>\<open>if self.bye_team_id:\<close> holds for an integer other than 0.\<close>

definition truthy :: "int option \<Rightarrow> bool" where
  "truthy b = (case b of None \<Rightarrow> False | Some n \<Rightarrow> n \<noteq> 0)"

text \<open>\<^verbatim>\<open>self.tables[table_key] = Table(table_id)\<close> for the zipped keys and ids: a key
  that comes again keeps its place and gets the new table.\<close>

definition initialize_tables :: "config \<Rightarrow> int option \<Rightarrow> nat \<Rightarrow> error + (string \<times> Table) list" where
  "initialize_tables cfg bye n =
     (let tableByeOffset = (if truthy bye then 1 else 0 :: nat) in
      case table_ids cfg of
        None \<Rightarrow> Inl KeyError
      | Some ids \<Rightarrow>
          if length ids + tableByeOffset < n div 2 then Inl ValueError
          else (case table_keys cfg of
                  None \<Rightarrow> Inl KeyError
                | Some keys \<Rightarrow>
                    Inr (fold (\<lambda>(k, i). AList.update k (Table_init i)) (zip keys ids) [])))"

definition playing :: "row \<Rightarrow> bool" where
  "playing r = (case r of (wid, d, ms) \<Rightarrow> d \<noteq> ''No Play'' \<and> d \<noteq> ''Playoff Week'')"

definition teams_of :: "row list \<Rightarrow> team list" where
  "teams_of rows = remdups (concat (map (\<lambda>(wid, d, ms). concat (map (\<lambda>(h, a). [h, a]) ms)) rows))"

record Schedule_read =
  read_num_teams :: nat
  read_total_weeks :: int
  read_weeks :: "Week list"

definition read_schedule :: "row list \<Rightarrow> int option \<Rightarrow> error + Schedule_read" where
  "read_schedule file_rows bye =
     (let rows = filter playing file_rows;
          n = length (teams_of rows)
      in if n mod 2 \<noteq> 0 then Inl ValueError
         else let tw = int (length rows) + 1 in
           Inr \<lparr>read_num_teams = n, read_total_weeks = tw,
                read_weeks = map (\<lambda>(wid, d, ms). Week_init wid d ms bye n tw) rows\<rparr>)"

record Manager =
  filename :: string
  name_groups :: groups
  schedule :: "Week list"
  manager_num_teams :: nat
  manager_bye_team_id :: "int option"
  manager_tables :: "(string \<times> Table) list"
  manager_total_weeks :: int

text \<open>\<^verbatim>\<open>TableAssignmentManager.__init__\<close>: \<^verbatim>\<open>self.num_teams = 0\<close>, then the file name,
  the team names, the tables and at last the schedule. \<open>cfg\<close> is what
  \<^verbatim>\<open>get_table_config\<close> does: the entry or the exception it raises.\<close>

definition Manager_init :: "string \<Rightarrow> error + config \<Rightarrow> row list \<Rightarrow> error + Manager" where
  "Manager_init fname cfg file_rows =
     (let n0 = 0 :: nat in
      case validate_filename fname of Inl e \<Rightarrow> Inl e | Inr gs \<Rightarrow>
      case cfg of Inl e \<Rightarrow> Inl e | Inr c \<Rightarrow>
      case initialize_team_names c of Inl e \<Rightarrow> Inl e | Inr bye \<Rightarrow>
      case initialize_tables c bye n0 of Inl e \<Rightarrow> Inl e | Inr tabs \<Rightarrow>
      case read_schedule file_rows bye of Inl e \<Rightarrow> Inl e | Inr sr \<Rightarrow>
        Inr \<lparr>filename = fname, name_groups = gs, schedule = read_weeks sr,
             manager_num_teams = read_num_teams sr, manager_bye_team_id = bye,
             manager_tables = tabs, manager_total_weeks = read_total_weeks sr\<rparr>)"

text \<open>\<^verbatim>\<open>main\<close> up to the end of \<^verbatim>\<open>assign_all_tables\<close>: the exception that ended the run,
  if any, and the weeks and tables as the run leaves them (\<open>None\<close> when the manager was
  never built).\<close>

definition run_v1 ::
  "(nat \<Rightarrow> table_ref list) \<Rightarrow> string \<Rightarrow> error + config \<Rightarrow> row list
     \<Rightarrow> error option \<times> (Week list \<times> Table list) option" where
  "run_v1 order fname cfg file_rows =
     (case Manager_init fname cfg file_rows of
        Inl e \<Rightarrow> (Some e, None)
      | Inr mgr \<Rightarrow>
          (case assign_all_tables order (manager_bye_team_id mgr) (schedule mgr)
                  (map snd (manager_tables mgr)) of
             (e, ws, ts) \<Rightarrow> (e, Some (ws, ts))))"

section \<open>Weeks of tableAssignments_v2.py\<close>

text \<open>\<^verbatim>\<open>Table\<close> and \<^verbatim>\<open>Match\<close> are as in v1, with two more methods of \<^verbatim>\<open>Table\<close>.
  \<^verbatim>\<open>was_recently_used_by\<close> counts how often the team closes \<^verbatim>\<open>last_used_by\<close>; the
  index \<^verbatim>\<open>-1 * (recent_usage + 1)\<close> leaves the list when all its entries are the team.\<close>

definition get_total_usage :: "Table \<Rightarrow> int" where
  "get_total_usage t = sum_list (map snd (team_usage t))"

fun trailing_run :: "team \<Rightarrow> team list \<Rightarrow> error + int" where
  "trailing_run tm [] = Inl IndexError"
| "trailing_run tm (x # xs) =
     (if tm = x then (case trailing_run tm xs of Inl e \<Rightarrow> Inl e | Inr n \<Rightarrow> Inr (n + 1))
      else Inr 0)"

definition was_recently_used_by :: "Table \<Rightarrow> team \<Rightarrow> error + int" where
  "was_recently_used_by t tm =
     (if last_used_by t = [] then Inr 0 else trailing_run tm (rev (last_used_by t)))"

record Week_v2 =
  week_id_v2 :: int
  date_v2 :: string
  matches_v2 :: "Match list"
  available_tables_v2 :: "table_ref list"
  num_teams_v2 :: nat
  bye_team_id_v2 :: "int option"

definition Week_v2_init :: "int \<Rightarrow> string \<Rightarrow> (team \<times> team) list \<Rightarrow> int option \<Rightarrow> nat \<Rightarrow> Week_v2" where
  "Week_v2_init wid d ms bye n =
     \<lparr>week_id_v2 = wid, date_v2 = d, matches_v2 = map Match_init ms,
      available_tables_v2 = [], num_teams_v2 = n, bye_team_id_v2 = bye\<rparr>"

definition match_usage :: "Table \<Rightarrow> Match \<Rightarrow> int" where
  "match_usage t m =
     (if get_total_usage t > 0
      then (get_usage t (home_team m) + get_usage t (away_team m)) div get_total_usage t
      else 0)"

definition current_value :: "Table \<Rightarrow> Match \<Rightarrow> error + score" where
  "current_value t m =
     (case was_recently_used_by t (home_team m) of Inl e \<Rightarrow> Inl e | Inr rh \<Rightarrow>
      case was_recently_used_by t (away_team m) of Inl e \<Rightarrow> Inl e | Inr ra \<Rightarrow>
        Inr (rh + ra, match_usage t m, get_usage t (home_team m) + get_usage t (away_team m)))"

definition find_best_table_v2 :: "Week_v2 \<Rightarrow> Table list \<Rightarrow> Match \<Rightarrow> error + table_ref option" where
  "find_best_table_v2 w ts m =
     (if available_tables_v2 w = [] then Inr None
      else case mapM (\<lambda>r. case current_value (ts ! r) m of
                             Inl e \<Rightarrow> Inl e | Inr v \<Rightarrow> Inr (r, v)) (available_tables_v2 w) of
        Inl e \<Rightarrow> Inl e
      | Inr [] \<Rightarrow> Inl ValueError
      | Inr (v # vs) \<Rightarrow> Inr (Some (fst (min_by_score v vs))))"

fun assign_loop_v2 ::
  "Week_v2 \<Rightarrow> Table list \<Rightarrow> Match list \<Rightarrow> error option \<times> Week_v2 \<times> Table list \<times> Match list" where
  "assign_loop_v2 w ts [] = (None, w, ts, [])"
| "assign_loop_v2 w ts (m # ms) =
     (if has_bye m (bye_team_id_v2 w)
      then (case assign_loop_v2 w ts ms of (e, w', ts', ms') \<Rightarrow> (e, w', ts', m # ms'))
      else case find_best_table_v2 w ts m of
        Inl e \<Rightarrow> (Some e, w, ts, m # ms)
      | Inr None \<Rightarrow> (Some ValueError, w, ts, m # ms)
      | Inr (Some r) \<Rightarrow>
          (case assign_table m r ts of (m', ts') \<Rightarrow>
           case assign_loop_v2 (w\<lparr>available_tables_v2 := remove1 r (available_tables_v2 w)\<rparr>) ts' ms of
             (e, w', ts'', ms') \<Rightarrow> (e, w', ts'', m' # ms')))"

text \<open>\<^verbatim>\<open>random.shuffle(table_list)\<close> and \<^verbatim>\<open>set(table_list)\<close>: \<open>order\<close> is the order in
  which Python iterates over the resulting set.\<close>

definition assign_tables_v2 :: "Week_v2 \<Rightarrow> Table list \<Rightarrow> table_ref list \<Rightarrow> error option \<times> Week_v2 \<times> Table list" where
  "assign_tables_v2 w ts order =
     (let w1 = w\<lparr>available_tables_v2 := order\<rparr> in
      case assign_loop_v2 w1 ts (matches_v2 w1) of
        (e, w2, ts', ms') \<Rightarrow> (e, w2\<lparr>matches_v2 := ms'\<rparr>, ts'))"

fun assign_weeks_v2 ::
  "(nat \<Rightarrow> table_ref list) \<Rightarrow> nat \<Rightarrow> Week_v2 list \<Rightarrow> Table list
     \<Rightarrow> error option \<times> Week_v2 list \<times> Table list" where
  "assign_weeks_v2 order i [] ts = (None, [], ts)"
| "assign_weeks_v2 order i (w # ws) ts =
     (case assign_tables_v2 w ts (order i) of
        (Some e, w', ts') \<Rightarrow> (Some e, w' # ws, ts')
      | (None, w', ts') \<Rightarrow>
          (case assign_weeks_v2 order (Suc i) ws ts' of
             (e, ws', ts'') \<Rightarrow> (e, w' # ws', ts'')))"

definition assign_all_tables_v2 ::
  "(nat \<Rightarrow> table_ref list) \<Rightarrow> Week_v2 list \<Rightarrow> Table list \<Rightarrow> error option \<times> Week_v2 list \<times> Table list" where
  "assign_all_tables_v2 order ws ts = assign_weeks_v2 order 0 ws ts"


section \<open>Teams, matches and weeks of tableAssignments_v3.py\<close>

text \<open>
  \<^verbatim>\<open>Team\<close> objects are shared by the matches of all weeks and carry the history
  \<^verbatim>\<open>tables_assigned\<close>, so they live in a store (the manager's list \<^verbatim>\<open>self.teams\<close>) and a
  match refers to its teams by position. \<^verbatim>\<open>Table\<close> objects are never changed and are
  compared by identity: a table is its position in \<^verbatim>\<open>self.tables\<close>, and the list of
  tables is given by its length. \<^verbatim>\<open>tables_assigned\<close> and \<^verbatim>\<open>candidate_tables\<close> are
  declared \<^verbatim>\<open>Optional\<close> and initialised to \<^verbatim>\<open>None\<close>.
\<close>

type_synonym team_ref = nat

record Team =
  team_id :: int
  team_value :: string
  tables_assigned :: "table_ref list option"

definition Team_init :: "int \<Rightarrow> string \<Rightarrow> Team" where
  "Team_init i v = \<lparr>team_id = i, team_value = v, tables_assigned = None\<rparr>"

record Match_v3 =
  home_team_v3 :: team_ref
  away_team_v3 :: team_ref
  table_assigned :: "table_ref option"
  candidate_tables :: "table_ref list option"

definition Match_v3_init :: "team_ref \<Rightarrow> team_ref \<Rightarrow> Match_v3" where
  "Match_v3_init h a =
     \<lparr>home_team_v3 = h, away_team_v3 = a, table_assigned = None, candidate_tables = None\<rparr>"

text \<open>\<^verbatim>\<open>team.tables_assigned.append(table)\<close> and \<^verbatim>\<open>team.tables_assigned.pop()\<close>.\<close>

definition history_append :: "team_ref \<Rightarrow> table_ref \<Rightarrow> Team list \<Rightarrow> error + Team list" where
  "history_append tr r teams =
     (case tables_assigned (teams ! tr) of
        None \<Rightarrow> Inl AttributeError
      | Some h \<Rightarrow> Inr (teams[tr := (teams ! tr)\<lparr>tables_assigned := Some (h @ [r])\<rparr>]))"

definition history_pop :: "team_ref \<Rightarrow> Team list \<Rightarrow> error + Team list" where
  "history_pop tr teams =
     (case tables_assigned (teams ! tr) of
        None \<Rightarrow> Inl AttributeError
      | Some [] \<Rightarrow> Inl IndexError
      | Some (x # xs) \<Rightarrow> Inr (teams[tr := (teams ! tr)\<lparr>tables_assigned := Some (butlast (x # xs))\<rparr>]))"

text \<open>\<^verbatim>\<open>Match.assign_table\<close> sets \<^verbatim>\<open>table_assigned\<close> first and then appends to the home
  team's and to the away team's history; an exception leaves what was done before it.\<close>

definition assign_table_v3 :: "Match_v3 \<Rightarrow> table_ref \<Rightarrow> Team list \<Rightarrow> error option \<times> Match_v3 \<times> Team list" where
  "assign_table_v3 m r teams =
     (let m' = m\<lparr>table_assigned := Some r\<rparr> in
      case history_append (home_team_v3 m) r teams of
        Inl e \<Rightarrow> (Some e, m', teams)
      | Inr teams1 \<Rightarrow>
          (case history_append (away_team_v3 m) r teams1 of
             Inl e \<Rightarrow> (Some e, m', teams1)
           | Inr teams2 \<Rightarrow> (None, m', teams2)))"

definition assign_candidate_table :: "Match_v3 \<Rightarrow> table_ref \<Rightarrow> error + Match_v3" where
  "assign_candidate_table m r =
     (case candidate_tables m of
        None \<Rightarrow> Inl AttributeError
      | Some c \<Rightarrow> Inr (m\<lparr>candidate_tables := Some (c @ [r])\<rparr>))"

definition remove_table :: "Match_v3 \<Rightarrow> Team list \<Rightarrow> error option \<times> Match_v3 \<times> Team list" where
  "remove_table m teams =
     (let m' = m\<lparr>table_assigned := None\<rparr> in
      case history_pop (home_team_v3 m) teams of
        Inl e \<Rightarrow> (Some e, m', teams)
      | Inr teams1 \<Rightarrow>
          (case history_pop (away_team_v3 m) teams1 of
             Inl e \<Rightarrow> (Some e, m', teams1)
           | Inr teams2 \<Rightarrow> (None, m', teams2)))"

record Week_v3 =
  week_id_v3 :: string
  weeks_total :: nat
  date_v3 :: string
  matches_v3 :: "Match_v3 list"
  bye_team_id_v3 :: "int option"

definition Week_v3_init :: "string \<Rightarrow> string \<Rightarrow> Match_v3 list \<Rightarrow> int option \<Rightarrow> Week_v3" where
  "Week_v3_init wid d ms bye =
     \<lparr>week_id_v3 = wid, weeks_total = 0, date_v3 = d, matches_v3 = ms, bye_team_id_v3 = bye\<rparr>"

definition set_weeks_total :: "nat \<Rightarrow> Week_v3 \<Rightarrow> Week_v3" where
  "set_weeks_total n w = w\<lparr>weeks_total := n\<rparr>"

text \<open>\<^verbatim>\<open>max_usage_per_table = math.ceil(self.weeks_total / num_tables)\<close>: the quotient of
  the two integers is taken exactly (the floating-point quotient has the same ceiling
  for every schedule a file can hold).\<close>

definition max_usage_per_table :: "nat \<Rightarrow> nat \<Rightarrow> error + int" where
  "max_usage_per_table wt num_tables =
     (if num_tables = 0 then Inl ZeroDivisionError
      else Inr \<lceil>real wt / real num_tables\<rceil>)"

text \<open>\<^verbatim>\<open>itertools.permutations(available_tables, r)\<close>: all sequences of \<open>r\<close> elements at
  different positions, in lexicographic order of the positions.\<close>

fun permutations :: "'a list \<Rightarrow> nat \<Rightarrow> 'a list list" where
  "permutations xs 0 = [[]]"
| "permutations xs (Suc r) =
     concat (map (\<lambda>i. map ((#) (xs ! i)) (permutations (take i xs @ drop (Suc i) xs) r))
               [0..<length xs])"

text \<open>\<^verbatim>\<open>any(proposed_table == team.tables_assigned[-1] for team in [home, away] if
  team.tables_assigned)\<close>: a history that is \<^verbatim>\<open>None\<close> or empty is skipped.\<close>

definition played_last :: "Team list \<Rightarrow> team_ref \<Rightarrow> table_ref \<Rightarrow> bool" where
  "played_last teams tr r =
     (case tables_assigned (teams ! tr) of
        None \<Rightarrow> False
      | Some h \<Rightarrow> h \<noteq> [] \<and> last h = r)"

definition repeats :: "Team list \<Rightarrow> Match_v3 \<Rightarrow> table_ref \<Rightarrow> bool" where
  "repeats teams m r = (played_last teams (home_team_v3 m) r \<or> played_last teams (away_team_v3 m) r)"

text \<open>\<^verbatim>\<open>populate_match_candidate_tables\<close> over \<^verbatim>\<open>zip(matches, table_permutation)\<close>: the
  result and the matches as the loop leaves them.\<close>

fun populate_match_candidate_tables ::
  "Team list \<Rightarrow> Match_v3 list \<Rightarrow> table_ref list \<Rightarrow> (error + bool) \<times> Match_v3 list" where
  "populate_match_candidate_tables teams [] perm = (Inr True, [])"
| "populate_match_candidate_tables teams (m # ms) [] = (Inr True, m # ms)"
| "populate_match_candidate_tables teams (m # ms) (r # rs) =
     (if repeats teams m r then (Inr False, m # ms)
      else case assign_candidate_table m r of
        Inl e \<Rightarrow> (Inl e, m # ms)
      | Inr m' \<Rightarrow>
          (case populate_match_candidate_tables teams ms rs of
             (res, ms') \<Rightarrow> (res, m' # ms')))"

fun get_permutations ::
  "Team list \<Rightarrow> Match_v3 list \<Rightarrow> table_ref list list \<Rightarrow> (error + bool) \<times> Match_v3 list" where
  "get_permutations teams ms [] = (Inr False, ms)"
| "get_permutations teams ms (p # ps) =
     (case populate_match_candidate_tables teams ms p of
        (Inl e, ms') \<Rightarrow> (Inl e, ms')
      | (Inr True, ms') \<Rightarrow> (Inr True, ms')
      | (Inr False, ms') \<Rightarrow> get_permutations teams ms' ps)"

fun reset_assignments :: "Match_v3 list \<Rightarrow> Team list \<Rightarrow> error option \<times> Match_v3 list \<times> Team list" where
  "reset_assignments [] teams = (None, [], teams)"
| "reset_assignments (m # ms) teams =
     (if table_assigned m \<noteq> None
      then (case remove_table m teams of
              (Some e, m', teams') \<Rightarrow> (Some e, m' # ms, teams')
            | (None, m', teams') \<Rightarrow>
                (case reset_assignments ms teams' of
                   (e, ms', teams'') \<Rightarrow> (e, m' # ms', teams'')))
      else (case reset_assignments ms teams of
              (e, ms', teams') \<Rightarrow> (e, m # ms', teams')))"

definition assign_tables_to_matches ::
  "Week_v3 \<Rightarrow> Match_v3 list \<Rightarrow> table_ref list \<Rightarrow> Team list \<Rightarrow> (error + bool) \<times> Match_v3 list \<times> Team list" where
  "assign_tables_to_matches w ms available teams =
     (case max_usage_per_table (weeks_total w) (length available) of
        Inl e \<Rightarrow> (Inl e, ms, teams)
      | Inr max_usage \<Rightarrow>
          (case get_permutations teams ms (permutations available (length ms)) of
             (Inl e, ms') \<Rightarrow> (Inl e, ms', teams)
           | (Inr True, ms') \<Rightarrow> (Inr True, ms', teams)
           | (Inr False, ms') \<Rightarrow>
               (case reset_assignments ms' teams of
                  (Some e, ms'', teams') \<Rightarrow> (Inl e, ms'', teams')
                | (None, ms'', teams') \<Rightarrow> (Inr False, ms'', teams'))))"

text \<open>The first week: \<^verbatim>\<open>available_tables.pop()\<close> takes the last table of the shuffled
  list for each match of the shuffled list of matches.\<close>

fun assign_first_week ::
  "Match_v3 list \<Rightarrow> table_ref list \<Rightarrow> Team list \<Rightarrow> error option \<times> Match_v3 list \<times> Team list" where
  "assign_first_week [] available teams = (None, [], teams)"
| "assign_first_week (m # ms) available teams =
     (if available = [] then (Some IndexError, m # ms, teams)
      else case assign_table_v3 m (last available) teams of
        (Some e, m', teams') \<Rightarrow> (Some e, m' # ms, teams')
      | (None, m', teams') \<Rightarrow>
          (case assign_first_week ms (butlast available) teams' of
             (e, ms', teams'') \<Rightarrow> (e, m' # ms', teams'')))"

text \<open>
  \<^verbatim>\<open>Week.assign_tables\<close>. \<open>n\<close> is the number of tables. The two calls of
  \<^verbatim>\<open>random.shuffle\<close> are given by their outcomes: \<open>shuffled_tables\<close>, a rearrangement of
  the tables, and \<open>shuffled_matches\<close>, a rearrangement of the week's matches (they are
  read in the first week only). The result tells as well whether the warning
  \<^verbatim>\<open>Unable to find a valid table assignment\<close> was printed.
\<close>

definition shuffle_of :: "'a list \<Rightarrow> 'a list \<Rightarrow> bool" where
  "shuffle_of xs ys = (mset ys = mset xs)"

definition assign_tables_v3 ::
  "Week_v3 \<Rightarrow> nat \<Rightarrow> Team list \<Rightarrow> table_ref list \<Rightarrow> Match_v3 list
     \<Rightarrow> error option \<times> bool \<times> Week_v3 \<times> Team list" where
  "assign_tables_v3 w n teams shuffled_tables shuffled_matches =
     (if week_id_v3 w = ''1''
      then (case assign_first_week shuffled_matches shuffled_tables teams of
              (e, ms', teams') \<Rightarrow> (e, False, w\<lparr>matches_v3 := ms'\<rparr>, teams'))
      else (case assign_tables_to_matches w (matches_v3 w) [0..<n] teams of
              (Inl e, ms', teams') \<Rightarrow> (Some e, False, w\<lparr>matches_v3 := ms'\<rparr>, teams')
            | (Inr success, ms', teams') \<Rightarrow> (None, \<not> success, w\<lparr>matches_v3 := ms'\<rparr>, teams')))"

text \<open>\<^verbatim>\<open>assign_all_tables\<close> up to the report: the exception that ended the loop, if any,
  the positions of the weeks with a warning, the weeks and the teams. \<open>rnd i\<close> are the
  outcomes of the shuffles for the week at position \<open>i\<close>.\<close>

fun assign_weeks_v3 ::
  "(nat \<Rightarrow> table_ref list \<times> Match_v3 list) \<Rightarrow> nat \<Rightarrow> nat \<Rightarrow> nat \<Rightarrow> Week_v3 list \<Rightarrow> Team list
     \<Rightarrow> error option \<times> nat list \<times> Week_v3 list \<times> Team list" where
  "assign_weeks_v3 rnd wt n i [] teams = (None, [], [], teams)"
| "assign_weeks_v3 rnd wt n i (w # ws) teams =
     (case assign_tables_v3 (set_weeks_total wt w) n teams (fst (rnd i)) (snd (rnd i)) of
        (Some e, warned, w', teams') \<Rightarrow> (Some e, [], w' # ws, teams')
      | (None, warned, w', teams') \<Rightarrow>
          (case assign_weeks_v3 rnd wt n (Suc i) ws teams' of
             (e, warnings, ws', teams'') \<Rightarrow>
               (e, (if warned then [i] else []) @ warnings, w' # ws', teams'')))"

definition assign_all_tables_v3 ::
  "(nat \<Rightarrow> table_ref list \<times> Match_v3 list) \<Rightarrow> nat \<Rightarrow> Week_v3 list \<Rightarrow> Team list
     \<Rightarrow> error option \<times> nat list \<times> Week_v3 list \<times> Team list" where
  "assign_all_tables_v3 rnd n ws teams = assign_weeks_v3 rnd (length ws) n 0 ws teams"

section \<open>The first script, tableAssignments.py\<close>

text \<open>
  Teams and tables are strings here. \<^verbatim>\<open>table_usage_count\<close> and \<^verbatim>\<open>table_history\<close> are
  dictionaries with defaults (0, and an empty \<^verbatim>\<open>deque(maxlen=20)\<close>), read and written
  key by key: functions. \<^verbatim>\<open>week_assignments\<close> is a dictionary from the match string to
  the table, kept as the list of its items.
\<close>

record ledger =
  table_usage_count :: "string \<Rightarrow> string \<Rightarrow> int"
  table_history :: "string \<Rightarrow> string list"

definition ledger_init :: ledger where
  "ledger_init = \<lparr>table_usage_count = (\<lambda>_ _. 0), table_history = (\<lambda>_. [])\<rparr>"

definition table_pairs :: "string list" where
  "table_pairs = [''1-2'', ''3-4'', ''5-6'', ''7-8'']"

text \<open>\<^verbatim>\<open>str.split('-')\<close>.\<close>

fun split_dash :: "string \<Rightarrow> string list" where
  "split_dash [] = [[]]"
| "split_dash (c # cs) =
     (if c = CHR ''-'' then [] # split_dash cs
      else (case split_dash cs of [] \<Rightarrow> [[c]] | p # ps \<Rightarrow> (c # p) # ps))"

text \<open>\<^verbatim>\<open>itertools.combinations(available_tables, r)\<close>, in its order.\<close>

fun combinations :: "'a list \<Rightarrow> nat \<Rightarrow> 'a list list" where
  "combinations xs 0 = [[]]"
| "combinations [] (Suc r) = []"
| "combinations (x # xs) (Suc r) = map ((#) x) (combinations xs r) @ combinations xs (Suc r)"

definition deque_append :: "string \<Rightarrow> string list \<Rightarrow> string list" where
  "deque_append x h = (let h' = h @ [x] in drop (length h' - 20) h')"

definition acceptable :: "ledger \<Rightarrow> string \<Rightarrow> string \<Rightarrow> string \<Rightarrow> bool" where
  "acceptable l home away tbl =
     ((length (table_history l home) = 0 \<or> tbl \<noteq> last (table_history l home))
      \<and> (length (table_history l away) = 0 \<or> tbl \<noteq> last (table_history l away))
      \<and> \<bar>table_usage_count l home tbl - table_usage_count l away tbl\<bar> \<le> 3)"

definition bump_usage :: "string \<Rightarrow> string \<Rightarrow> ledger \<Rightarrow> ledger" where
  "bump_usage tm tbl l =
     l\<lparr>table_usage_count :=
         (table_usage_count l)(tm := (table_usage_count l tm)(tbl := table_usage_count l tm tbl + 1))\<rparr>"

definition push_history :: "string \<Rightarrow> string \<Rightarrow> ledger \<Rightarrow> ledger" where
  "push_history tm tbl l =
     l\<lparr>table_history := (table_history l)(tm := deque_append tbl (table_history l tm))\<rparr>"

definition record_assignment :: "string \<Rightarrow> string \<Rightarrow> string \<Rightarrow> ledger \<Rightarrow> ledger" where
  "record_assignment home away tbl l =
     push_history away tbl (push_history home tbl (bump_usage away tbl (bump_usage home tbl l)))"

text \<open>The state of one week's loops: the ledger, \<^verbatim>\<open>week_assignments\<close> and
  \<^verbatim>\<open>used_table\<close>.\<close>

type_synonym week_state = "ledger \<times> (string \<times> string) list \<times> string option"

text \<open>\<^verbatim>\<open>for table in combo\<close>: the match string is split anew for every table; the first
  acceptable table is recorded and \<^verbatim>\<open>break\<close> leaves this loop, and this loop only.\<close>

fun try_combo :: "string \<Rightarrow> week_state \<Rightarrow> string list \<Rightarrow> error + week_state" where
  "try_combo mtch st [] = Inr st"
| "try_combo mtch (l, wa, used) (tbl # tbls) =
     (case split_dash mtch of
        [home, away] \<Rightarrow>
          (if acceptable l home away tbl
           then Inr (record_assignment home away tbl l, AList.update mtch tbl wa, Some tbl)
           else try_combo mtch (l, wa, used) tbls)
      | _ \<Rightarrow> Inl ValueError)"

fun try_combos :: "string \<Rightarrow> week_state \<Rightarrow> string list list \<Rightarrow> error + week_state" where
  "try_combos mtch st [] = Inr st"
| "try_combos mtch st (combo # combos) =
     (case try_combo mtch st combo of
        Inl e \<Rightarrow> Inl e
      | Inr st' \<Rightarrow> try_combos mtch st' combos)"

text \<open>\<^verbatim>\<open>for match in matches\<close>. \<^verbatim>\<open>available_tables_combo\<close> is an iterator: \<open>combos\<close> is
  what it still holds, and the loop over it leaves it empty. It has no method
  \<^verbatim>\<open>remove\<close>, so the call raises \<^verbatim>\<open>AttributeError\<close> as soon as \<^verbatim>\<open>used_table\<close> is set
  (every table name is a non-empty string). The number returned counts the executions
  of \<^verbatim>\<open>assignments.append\<close>.\<close>

fun match_loop :: "week_state \<Rightarrow> string list list \<Rightarrow> string list \<Rightarrow> error + (week_state \<times> nat)" where
  "match_loop st combos [] = Inr (st, 0)"
| "match_loop (l, wa, used) combos (mtch # ms) =
     (if used \<noteq> None then Inl AttributeError
      else case try_combos mtch (l, wa, used) combos of
        Inl e \<Rightarrow> Inl e
      | Inr st' \<Rightarrow>
          (case match_loop st' [] ms of
             Inl e \<Rightarrow> Inl e
           | Inr (st'', k) \<Rightarrow> Inr (st'', Suc k)))"

text \<open>One pass of \<^verbatim>\<open>while schedule\<close>: a week is a row
  \<^verbatim>\<open>week_number, match_date, *matches\<close>. Every tuple appended for the week holds the same
  dictionary object, so all of them show its final content.\<close>

type_synonym assignment = "string \<times> string \<times> (string \<times> string) list"

definition assign_week :: "ledger \<Rightarrow> string list \<Rightarrow> error + (ledger \<times> assignment list)" where
  "assign_week l week =
     (case week of
        week_number # match_date # ms \<Rightarrow>
          (case match_loop (l, [], None) (combinations table_pairs (length ms)) ms of
             Inl e \<Rightarrow> Inl e
           | Inr ((l', wa, used), k) \<Rightarrow> Inr (l', replicate k (week_number, match_date, wa)))
      | _ \<Rightarrow> Inl ValueError)"

fun assign_schedule :: "ledger \<Rightarrow> string list list \<Rightarrow> error + (ledger \<times> assignment list)" where
  "assign_schedule l [] = Inr (l, [])"
| "assign_schedule l (week # weeks) =
     (case assign_week l week of
        Inl e \<Rightarrow> Inl e
      | Inr (l', as) \<Rightarrow>
          (case assign_schedule l' weeks of
             Inl e \<Rightarrow> Inl e
           | Inr (l'', rest) \<Rightarrow> Inr (l'', as @ rest)))"

text \<open>\<^verbatim>\<open>assign_tables(schedule)\<close>: the two global dictionaries start empty. The result is
  the returned list together with the global dictionaries as the call leaves them.\<close>

definition assign_tables_v0 :: "string list list \<Rightarrow> error + (ledger \<times> assignment list)" where
  "assign_tables_v0 sched = assign_schedule ledger_init sched"

section \<open>The week objects of a v1 run\<close>

text \<open>The weeks a run of tableAssignments_v1.py can hold: \<^verbatim>\<open>read_schedule\<close> builds them
  with \<^verbatim>\<open>Week(...)\<close>, and \<^verbatim>\<open>assign_all_tables\<close> passes them through
  \<^verbatim>\<open>calculate_usage_stats\<close> and \<^verbatim>\<open>assign_tables\<close>.\<close>

inductive week_of_v1 :: "Week \<Rightarrow> bool" where
  built: "week_of_v1 (Week_init wid d ms bye n tw)"
| stats: "week_of_v1 w \<Longrightarrow> week_of_v1 (snd (calculate_usage_stats w ts bye))"
| assigned: "week_of_v1 w \<Longrightarrow> week_of_v1 (fst (snd (assign_tables w ts order)))"

section \<open>Notions used in the statements\<close>

text \<open>The tables the matches of a week hold, in the order of the matches.\<close>

definition held :: "Match list \<Rightarrow> table_ref list" where
  "held ms = List.map_filter assigned_table ms"

definition held_v3 :: "Match_v3 list \<Rightarrow> table_ref list" where
  "held_v3 ms = List.map_filter table_assigned ms"

text \<open>In the first script, the state of a week's loop while it works on the match
  \<open>mtch\<close>: either nothing is assigned, or \<open>mtch\<close> alone holds a table.\<close>

definition one_table :: "string \<Rightarrow> week_state \<Rightarrow> bool" where
  "one_table mtch st =
     (case st of (l, wa, used) \<Rightarrow>
        (wa = [] \<and> used = None) \<or> (\<exists>t. wa = [(mtch, t)] \<and> used = Some t))"


text \<open>A history that only grew at its end, and a store of tables in which no usage
  count went down and no entry of \<^verbatim>\<open>last_used_by\<close> was lost.\<close>

definition history_kept :: "'a list \<Rightarrow> 'a list \<Rightarrow> bool" where
  "history_kept h h' = (take (length h) h' = h)"

definition table_grows :: "Table \<Rightarrow> Table \<Rightarrow> bool" where
  "table_grows t t' =
     ((\<forall>tm. get_usage t tm \<le> get_usage t' tm)
      \<and> history_kept (last_used_by t) (last_used_by t'))"

definition tables_grow :: "Table list \<Rightarrow> Table list \<Rightarrow> bool" where
  "tables_grow ts ts' =
     (length ts' = length ts \<and> (\<forall>r<length ts. table_grows (ts ! r) (ts' ! r)))"

text \<open>The matches \<open>ms\<close> of a v1 or v2 week after an assignment that got through them:
  a match with the bye team is as it was, every other match holds a table.\<close>

definition assigned_in_place :: "int option \<Rightarrow> Match list \<Rightarrow> Match list \<Rightarrow> bool" where
  "assigned_in_place bye ms ms' =
     list_all2 (\<lambda>m m'. home_team m' = home_team m \<and> away_team m' = away_team m
                  \<and> (if has_bye m bye then m' = m else assigned_table m' \<noteq> None)) ms ms'"

text \<open>The home and away teams of the v3 matches, position by position.\<close>

definition teams_of_matches :: "Match_v3 list \<Rightarrow> (team_ref \<times> team_ref) list" where
  "teams_of_matches ms = map (\<lambda>m. (home_team_v3 m, away_team_v3 m)) ms"


text \<open>The teams and matches of a v3 run as the constructors leave them: every team's
  \<^verbatim>\<open>tables_assigned\<close> is \<^verbatim>\<open>None\<close> (\<^verbatim>\<open>Team.__init__\<close>), every match has
  \<^verbatim>\<open>table_assigned\<close> and \<^verbatim>\<open>candidate_tables\<close> \<^verbatim>\<open>None\<close> (\<^verbatim>\<open>Match.__init__\<close>) and its two
  teams are objects of the list of teams.\<close>

definition built_v3 :: "Team list \<Rightarrow> Match_v3 list \<Rightarrow> bool" where
  "built_v3 teams ms =
     ((\<forall>t\<in>set teams. tables_assigned t = None)
      \<and> (\<forall>m\<in>set ms. table_assigned m = None \<and> candidate_tables m = None
            \<and> home_team_v3 m < length teams \<and> away_team_v3 m < length teams))"

text \<open>The outcomes \<open>rnd\<close> of \<^verbatim>\<open>random.shuffle(self.matches)\<close>, from the position \<open>i\<close> on,
  are rearrangements of the matches of the weeks \<open>ws\<close>.\<close>

definition rearranged :: "(nat \<Rightarrow> table_ref list \<times> Match_v3 list) \<Rightarrow> nat \<Rightarrow> Week_v3 list \<Rightarrow> bool" where
  "rearranged rnd i ws = (\<forall>j<length ws. shuffle_of (matches_v3 (ws ! j)) (snd (rnd (i + j))))"

text \<open>The tables held by the matches of all weeks of a v3 schedule.\<close>

definition held_run :: "Week_v3 list \<Rightarrow> table_ref list" where
  "held_run ws = concat (map (\<lambda>w. held_v3 (matches_v3 w)) ws)"

text \<open>What the matches of a v1 or v2 week that hold a table have written to the tables:
  \<^verbatim>\<open>Table.add_team\<close> for the home team and for the away team of every such match, in
  the order of the matches.\<close>

definition record_match :: "Match \<Rightarrow> Table list \<Rightarrow> Table list" where
  "record_match m ts =
     (case assigned_table m of
        None \<Rightarrow> ts
      | Some r \<Rightarrow> ts[r := add_team (away_team m) (add_team (home_team m) (ts ! r))])"

definition record_matches :: "Match list \<Rightarrow> Table list \<Rightarrow> Table list" where
  "record_matches ms ts = fold record_match ms ts"

text \<open>In the first script: the last 20 entries of a list; a team \<open>tm\<close> whose tables, in
  the order in which they were assigned to it, are \<open>xs\<close> (its usage counts count all of
  \<open>xs\<close>, its history shows the last 20 of them); and usage counts that did not go
  down.\<close>

definition last20 :: "'a list \<Rightarrow> 'a list" where
  "last20 xs = drop (length xs - 20) xs"

definition credited :: "ledger \<Rightarrow> string \<Rightarrow> string list \<Rightarrow> bool" where
  "credited l tm xs =
     (table_history l tm = last20 xs
      \<and> (\<forall>tbl. table_usage_count l tm tbl = int (count_list xs tbl)))"

definition usage_kept :: "ledger \<Rightarrow> ledger \<Rightarrow> bool" where
  "usage_kept l l' = (\<forall>tm tbl. table_usage_count l tm tbl \<le> table_usage_count l' tm tbl)"

section \<open>Properties of the filename validation\<close>

lemma match_digits_run:
  assumes "digits g" and "\<not> is_digit c"
  shows "match_digits (g @ c # r) = Some (g, c # r)"
proof -
  from assms(1) have ne: "g \<noteq> []" and all: "\<forall>x\<in>set g. is_digit x"
    by (simp_all add: digits_def list_all_iff)
  from all assms(2) have tw: "takeWhile is_digit (g @ c # r) = g"
    by (simp add: takeWhile_append2)
  from all assms(2) have dw: "dropWhile is_digit (g @ c # r) = c # r"
    by (simp add: dropWhile_append2)
  from ne obtain d ds where g: "g = d # ds" by (cases g) auto
  show ?thesis
    unfolding match_digits_def tw dw by (simp add: g)
qed

lemma match_literal_prefix: "match_literal lit (lit @ r) = Some r"
  by (simp add: match_literal_def)

lemma dash_no_digit: "\<not> is_digit CHR ''-''"
  by (simp add: is_digit_def)

lemma match_group_dash:
  assumes "digits g"
  shows "match_group ''-'' (g @ ''-'' @ r) = Some (g, r)"
proof -
  have "match_digits (g @ CHR ''-'' # r) = Some (g, CHR ''-'' # r)"
    using assms dash_no_digit by (rule match_digits_run)
  moreover have "match_literal ''-'' (CHR ''-'' # r) = Some r"
    using match_literal_prefix [of "''-''" r] by simp
  ultimately show ?thesis by (simp add: match_group_def)
qed

lemma match_group_schedule:
  assumes "digits g"
  shows "match_group ''-Schedule.csv'' (g @ ''-Schedule.csv'' @ r) = Some (g, r)"
proof -
  have "match_digits (g @ CHR ''-'' # (''Schedule.csv'' @ r))
          = Some (g, CHR ''-'' # (''Schedule.csv'' @ r))"
    using assms dash_no_digit by (rule match_digits_run)
  moreover have "match_literal ''-Schedule.csv'' (''-Schedule.csv'' @ r) = Some r"
    by (rule match_literal_prefix)
  ultimately show ?thesis by (simp add: match_group_def)
qed

lemma re_match_schedule_prefix:
  assumes "digits g1" "digits g2" "digits g3" "digits g4" "digits g5"
  shows "re_match_schedule
           (g1 @ ''-'' @ g2 @ ''-'' @ g3 @ ''-'' @ g4 @ ''-'' @ g5 @ ''-Schedule.csv'' @ rest)
         = Some (g1, g2, g3, g4, g5)"
  unfolding re_match_schedule_def
  by (simp only: match_group_dash [OF assms(1)] match_group_dash [OF assms(2)]
        match_group_dash [OF assms(3)] match_group_dash [OF assms(4)]
        match_group_schedule [OF assms(5)] option.case prod.case)

text \<open>
  Claim C10. Filename validation is prefix-only: whenever the file name starts with
  five non-empty digit groups separated by \<^verbatim>\<open>-\<close> and followed by
  \<^verbatim>\<open>-Schedule.csv\<close>, both \<^verbatim>\<open>parse_filename\<close> and \<^verbatim>\<open>validate_filename\<close> return
  the five groups without raising, whatever characters \<open>rest\<close> follow.
\<close>

theorem filename_validation_prefix_only:
  assumes "digits g1" "digits g2" "digits g3" "digits g4" "digits g5"
  shows "parse_filename
           (g1 @ ''-'' @ g2 @ ''-'' @ g3 @ ''-'' @ g4 @ ''-'' @ g5 @ ''-Schedule.csv'' @ rest)
           = Inr (g1, g2, g3, g4, g5)
       \<and> validate_filename
           (g1 @ ''-'' @ g2 @ ''-'' @ g3 @ ''-'' @ g4 @ ''-'' @ g5 @ ''-Schedule.csv'' @ rest)
           = Inr (g1, g2, g3, g4, g5)"
  unfolding parse_filename_def validate_filename_def re_match_schedule_prefix [OF assms]
  by simp

theorem filename_validation_prefix_only_witness:
  "digits ''787'' \<and> digits ''2025'' \<and> digits ''01'' \<and> digits ''705'' \<and> digits ''02''
   \<and> parse_filename ''787-2025-01-705-02-Schedule.csv.bak/../x''
       = Inr (''787'', ''2025'', ''01'', ''705'', ''02'')
   \<and> validate_filename ''787-2025-01-705-02-Schedule.csv.bak/../x''
       = Inr (''787'', ''2025'', ''01'', ''705'', ''02'')"
proof -
  have d: "digits ''787''" "digits ''2025''" "digits ''01''" "digits ''705''" "digits ''02''"
    by (simp_all add: digits_def is_digit_def)
  show ?thesis
    using d filename_validation_prefix_only [OF d, of "''.bak/../x''"] by simp
qed

section \<open>The missing attribute of v1\<close>

lemma find_best_table_no_attribute:
  "tables w = None \<Longrightarrow> available_tables w \<noteq> [] \<Longrightarrow>
     find_best_table w ts m b = Inl AttributeError"
  by (simp add: find_best_table_def)

lemma find_best_table_no_table:
  "available_tables w = [] \<Longrightarrow> find_best_table w ts m b = Inr None"
  by (simp add: find_best_table_def)

lemma assign_loop_no_attribute:
  assumes "tables w = None" and "\<exists>m\<in>set ms. \<not> has_bye m (bye_team_id w)"
  shows "assign_loop w ts ms =
           (Some (if available_tables w = [] then ValueError else AttributeError), w, ts, ms)"
  using assms(2)
proof (induction ms)
  case Nil
  then show ?case by simp
next
  case (Cons m ms)
  show ?case
  proof (cases "has_bye m (bye_team_id w)")
    case True
    with Cons.prems have "\<exists>m\<in>set ms. \<not> has_bye m (bye_team_id w)" by auto
    with Cons.IH True show ?thesis by simp
  next
    case False
    then show ?thesis
      using assms(1) by (cases "available_tables w = []")
        (simp_all add: find_best_table_no_attribute find_best_table_no_table)
  qed
qed

lemma tables_calculate_usage_stats:
  "tables (snd (calculate_usage_stats w ts b)) = tables w"
  by (simp add: calculate_usage_stats_def Let_def split: sum.splits)

lemma tables_assign_loop:
  "assign_loop w ts ms = (e, w', ts', ms') \<Longrightarrow> tables w' = tables w"
  by (induction w ts ms arbitrary: e w' ts' ms' rule: assign_loop.induct)
     (auto split: if_splits prod.splits sum.splits option.splits)

lemma tables_assign_tables:
  "tables (fst (snd (assign_tables w ts order))) = tables w"
proof -
  obtain e w2 ts' ms' where
    l: "assign_loop (w\<lparr>available_tables := order, total_tables := Some (length ts)\<rparr>) ts
          (matches w) = (e, w2, ts', ms')"
    by (metis prod_cases4)
  from tables_assign_loop [OF l] have "tables w2 = tables w" by simp
  with l show ?thesis by (simp add: assign_tables_def Let_def)
qed

lemma week_of_v1_no_attribute: "week_of_v1 w \<Longrightarrow> tables w = None"
  by (induction rule: week_of_v1.induct)
     (simp_all add: Week_init_def tables_calculate_usage_stats tables_assign_tables)

text \<open>
  Claim C9. Every week object of a v1 run lacks the attribute \<^verbatim>\<open>tables\<close>, so every call
  of \<^verbatim>\<open>find_best_table\<close> on it with a non-empty set of available tables raises
  \<^verbatim>\<open>AttributeError\<close>; and \<^verbatim>\<open>assign_tables\<close> on a week with a match without the bye team
  ends in an exception (\<^verbatim>\<open>AttributeError\<close>, or \<^verbatim>\<open>ValueError\<close> when there is no table
  at all) and leaves every match and every table as it was.
\<close>

theorem v1_find_best_table_raises:
  assumes "week_of_v1 w"
  shows "(available_tables w \<noteq> [] \<longrightarrow> find_best_table w ts m b = Inl AttributeError)
       \<and> ((\<exists>m\<in>set (matches w). \<not> has_bye m (bye_team_id w)) \<longrightarrow>
            assign_tables w ts order =
              (Some (if order = [] then ValueError else AttributeError),
               w\<lparr>available_tables := order, total_tables := Some (length ts)\<rparr>, ts))"
proof (intro conjI impI)
  from assms have none: "tables w = None" by (rule week_of_v1_no_attribute)
  {
    assume "available_tables w \<noteq> []"
    with none show "find_best_table w ts m b = Inl AttributeError"
      by (rule find_best_table_no_attribute)
  }
  {
    assume ex: "\<exists>m\<in>set (matches w). \<not> has_bye m (bye_team_id w)"
    let ?w1 = "w\<lparr>available_tables := order, total_tables := Some (length ts)\<rparr>"
    have "assign_loop ?w1 ts (matches w) =
            (Some (if available_tables ?w1 = [] then ValueError else AttributeError),
             ?w1, ts, matches w)"
      using none ex by (intro assign_loop_no_attribute) simp_all
    then show "assign_tables w ts order =
                 (Some (if order = [] then ValueError else AttributeError), ?w1, ts)"
      by (simp add: assign_tables_def Let_def)
  }
qed

theorem v1_find_best_table_raises_witness:
  "week_of_v1 ((Week_init 1 ''1/7'' [(1, 2), (3, 4)] (Some 4) 4 2)
                 \<lparr>available_tables := [0, 1], total_tables := Some 2\<rparr>)
   \<and> available_tables ((Week_init 1 ''1/7'' [(1, 2), (3, 4)] (Some 4) 4 2)
                 \<lparr>available_tables := [0, 1], total_tables := Some 2\<rparr>) \<noteq> []
   \<and> find_best_table ((Week_init 1 ''1/7'' [(1, 2), (3, 4)] (Some 4) 4 2)
                 \<lparr>available_tables := [0, 1], total_tables := Some 2\<rparr>)
        [Table_init ''A'', Table_init ''B''] (Match_init (1, 2)) (Some 4) = Inl AttributeError
   \<and> \<not> has_bye (Match_init (1, 2)) (Some 4)
   \<and> fst (assign_tables ((Week_init 1 ''1/7'' [(1, 2), (3, 4)] (Some 4) 4 2)
                 \<lparr>available_tables := [0, 1], total_tables := Some 2\<rparr>)
        [Table_init ''A'', Table_init ''B''] [1, 0]) = Some AttributeError"
proof -
  let ?ini = "Week_init 1 ''1/7'' [(1, 2), (3, 4)] (Some 4) 4 2"
  let ?wk = "?ini\<lparr>available_tables := [0, 1], total_tables := Some 2\<rparr>"
  let ?ts = "[Table_init ''A'', Table_init ''B'']"
  have nb: "\<not> has_bye (Match_init (1, 2)) (Some 4)"
    by (simp add: has_bye_def same_str_def Match_init_def)
  have ex0: "\<exists>m\<in>set (matches ?ini). \<not> has_bye m (bye_team_id ?ini)"
    using nb by (simp add: Week_init_def)
  have "fst (snd (assign_tables ?ini ?ts [0, 1])) = ?wk"
    using v1_find_best_table_raises [OF week_of_v1.built, of 1 "''1/7''" "[(1, 2), (3, 4)]"
        "Some 4" 4 2 ?ts undefined undefined "[0, 1]"] ex0
    by simp
  moreover have "week_of_v1 (fst (snd (assign_tables ?ini ?ts [0, 1])))"
    by (rule week_of_v1.assigned) (rule week_of_v1.built)
  ultimately have reach: "week_of_v1 ?wk" by simp
  have ne: "available_tables ?wk \<noteq> []" by simp
  have ex: "\<exists>m\<in>set (matches ?wk). \<not> has_bye m (bye_team_id ?wk)"
    using nb by (simp add: Week_init_def)
  from v1_find_best_table_raises [OF reach, of ?ts "Match_init (1, 2)" "Some 4" "[1, 0]"] ne ex
  show ?thesis using reach nb by simp
qed

section \<open>Exclusivity within a week\<close>

lemma held_Cons:
  "held (m # ms) = (case assigned_table m of None \<Rightarrow> held ms | Some r \<Rightarrow> r # held ms)"
  by (simp add: held_def List.map_filter_simps split: option.splits)

lemma held_Nil: "held [] = []"
  by (simp add: held_def List.map_filter_simps)

lemma mapM_tagged:
  "mapM (\<lambda>r. case f r of Inl e \<Rightarrow> Inl e | Inr v \<Rightarrow> Inr (r, v)) xs = Inr ys \<Longrightarrow> map fst ys = xs"
  by (induction xs arbitrary: ys) (auto split: sum.splits)

lemma min_by_score_mem: "min_by_score b xs \<in> set (b # xs)"
  by (induction xs arbitrary: b) auto

lemma find_best_table_available:
  assumes "find_best_table w ts m b = Inr (Some r)"
  shows "r \<in> set (available_tables w)"
proof -
  from assms obtain ideal s ss where
    sc: "table_scores w ts m b ideal = Inr (s # ss)" and r: "r = fst (min_by_score s ss)"
    by (auto simp: find_best_table_def split: if_splits option.splits sum.splits list.splits)
  from sc have "map fst (s # ss) = available_tables w"
    by (auto simp: table_scores_def split: if_splits dest: mapM_tagged)
  moreover have "r \<in> fst ` set (s # ss)"
    unfolding r using min_by_score_mem [of s ss] by (intro imageI)
  ultimately show ?thesis by (metis set_map)
qed

lemma find_best_table_v2_available:
  assumes "find_best_table_v2 w ts m = Inr (Some r)"
  shows "r \<in> set (available_tables_v2 w)"
proof -
  from assms obtain s ss where
    sc: "mapM (\<lambda>r. case current_value (ts ! r) m of Inl e \<Rightarrow> Inl e | Inr v \<Rightarrow> Inr (r, v))
           (available_tables_v2 w) = Inr (s # ss)" and r: "r = fst (min_by_score s ss)"
    by (auto simp: find_best_table_v2_def split: if_splits sum.splits list.splits)
  from sc have "map fst (s # ss) = available_tables_v2 w"
    by (rule mapM_tagged)
  moreover have "r \<in> fst ` set (s # ss)"
    unfolding r using min_by_score_mem [of s ss] by (intro imageI)
  ultimately show ?thesis by (metis set_map)
qed

lemma assign_loop_held:
  assumes "assign_loop w ts ms = (e, w', ts', ms')"
    and "distinct (available_tables w)"
    and "\<forall>m\<in>set ms. assigned_table m = None"
  shows "distinct (held ms') \<and> set (held ms') \<subseteq> set (available_tables w)"
  using assms
proof (induction w ts ms arbitrary: e w' ts' ms' rule: assign_loop.induct)
  case (1 w ts)
  then show ?case by (simp add: held_Nil)
next
  case (2 w ts m ms)
  show ?case
  proof (cases "has_bye m (bye_team_id w)")
    case True
    with "2.prems"(1) obtain ms1 where l: "assign_loop w ts ms = (e, w', ts', ms1)" and ms': "ms' = m # ms1"
      by (auto split: prod.splits)
    from "2.IH"(1) [OF True l] "2.prems" have "distinct (held ms1) \<and> set (held ms1) \<subseteq> set (available_tables w)"
      by simp
    with ms' "2.prems"(3) show ?thesis by (simp add: held_Cons)
  next
    case False
    show ?thesis
    proof (cases "find_best_table w ts m (bye_team_id w)")
      case (Inl err)
      with False "2.prems" show ?thesis by (auto simp: held_Cons held_def List.map_filter_simps map_filter_def filter_empty_conv)
    next
      case (Inr res)
      show ?thesis
      proof (cases res)
        case None
        with Inr False "2.prems" show ?thesis by (auto simp: held_def map_filter_def filter_empty_conv)
      next
        case (Some r)
        obtain m1 ts1 where at: "assign_table m r ts = (m1, ts1)" by (cases "assign_table m r ts")
        then have m1: "assigned_table m1 = Some r" by (auto simp: assign_table_def)
        let ?w1 = "w\<lparr>available_tables := remove1 r (available_tables w)\<rparr>"
        obtain e2 w2 ts2 ms2 where l: "assign_loop ?w1 ts1 ms = (e2, w2, ts2, ms2)"
          by (metis prod_cases4)
        with "2.prems"(1) False Inr Some at have ms': "ms' = m1 # ms2" by simp
        have rin: "r \<in> set (available_tables w)"
          using Inr Some by (intro find_best_table_available) simp
        have "distinct (held ms2) \<and> set (held ms2) \<subseteq> set (available_tables ?w1)"
          using "2.IH"(2) [OF False Inr Some at [symmetric] l] "2.prems"(2,3) by simp
        then have d: "distinct (held ms2)" and sub: "set (held ms2) \<subseteq> set (available_tables w) - {r}"
          using "2.prems"(2) by simp_all
        from d sub rin show ?thesis by (auto simp: ms' held_Cons m1)
      qed
    qed
  qed
qed


lemma held_v3_None: "\<forall>m\<in>set ms. table_assigned m = None \<Longrightarrow> held_v3 ms = []"
  by (simp add: held_v3_def map_filter_def filter_empty_conv)

lemma held_v3_Some: "map table_assigned ms = map Some rs \<Longrightarrow> held_v3 ms = rs"
proof (induction ms arbitrary: rs)
  case Nil
  then show ?case by (simp add: held_v3_def List.map_filter_simps)
next
  case (Cons m ms)
  then obtain r rs' where rs: "rs = r # rs'" by (cases rs) auto
  with Cons show ?case by (simp add: held_v3_def List.map_filter_simps)
qed

lemma assign_table_v3_assigned:
  "assign_table_v3 m r teams = (e, m', teams') \<Longrightarrow> table_assigned m' = Some r"
  by (auto simp: assign_table_v3_def Let_def split: sum.splits)

lemma assign_first_week_tables:
  assumes "assign_first_week ms av teams = (None, ms', teams')"
  shows "map table_assigned ms' = map Some (take (length ms) (rev av)) \<and> length ms \<le> length av"
  using assms
proof (induction ms arbitrary: av teams ms' teams')
  case Nil
  then show ?case by simp
next
  case (Cons m ms)
  from Cons.prems have ne: "av \<noteq> []" by (auto split: if_splits)
  obtain e1 m1 teams1 where a: "assign_table_v3 m (last av) teams = (e1, m1, teams1)"
    by (metis prod_cases3)
  with Cons.prems ne have e1: "e1 = None" by (auto split: option.splits prod.splits)
  obtain e2 ms2 teams2 where l: "assign_first_week ms (butlast av) teams1 = (e2, ms2, teams2)"
    by (metis prod_cases3)
  with Cons.prems ne a e1 have e2: "e2 = None" and ms': "ms' = m1 # ms2" by auto
  from Cons.IH [OF l [unfolded e2]]
  have ih: "map table_assigned ms2 = map Some (take (length ms) (rev (butlast av)))"
    and len: "length ms \<le> length (butlast av)" by simp_all
  from ne have rv: "rev av = last av # rev (butlast av)"
    by (metis append_butlast_last_id rev.simps(2) rev_rev_ident rev_singleton_conv rev_append append_Cons append_Nil)
  from len ne have "length (m # ms) \<le> length av" by (cases av rule: rev_cases) auto
  moreover have "map table_assigned ms' = map Some (take (length (m # ms)) (rev av))"
    using ih assign_table_v3_assigned [OF a] by (simp add: ms' rv)
  ultimately show ?case by simp
qed

lemma populate_table_assigned:
  "populate_match_candidate_tables teams ms p = (res, ms') \<Longrightarrow>
     map table_assigned ms' = map table_assigned ms"
proof (induction teams ms p arbitrary: res ms' rule: populate_match_candidate_tables.induct)
  case (3 teams m ms r rs)
  then show ?case
    by (auto simp: assign_candidate_table_def split: if_splits sum.splits option.splits prod.splits)
qed auto

lemma get_permutations_table_assigned:
  "get_permutations teams ms ps = (res, ms') \<Longrightarrow>
     map table_assigned ms' = map table_assigned ms"
proof (induction ps arbitrary: ms res ms')
  case Nil
  then show ?case by simp
next
  case (Cons p ps)
  obtain r1 ms1 where p: "populate_match_candidate_tables teams ms p = (r1, ms1)"
    by (cases "populate_match_candidate_tables teams ms p")
  note eq = populate_table_assigned [OF p]
  show ?case
  proof (cases r1)
    case (Inl e)
    with Cons.prems p eq show ?thesis by simp
  next
    case (Inr b)
    show ?thesis
    proof (cases b)
      case True
      with Inr Cons.prems p eq show ?thesis by simp
    next
      case False
      with Inr Cons.prems p have "get_permutations teams ms1 ps = (res, ms')" by simp
      from Cons.IH [OF this] eq show ?thesis by simp
    qed
  qed
qed

lemma reset_assignments_unassigned:
  "\<forall>m\<in>set ms. table_assigned m = None \<Longrightarrow> reset_assignments ms teams = (None, ms, teams)"
  by (induction ms) auto

lemma assign_tables_to_matches_unassigned:
  assumes "assign_tables_to_matches w ms av teams = (res, ms', teams')"
    and "\<forall>m\<in>set ms. table_assigned m = None"
  shows "map table_assigned ms' = map table_assigned ms \<and> teams' = teams"
proof (cases "max_usage_per_table (weeks_total w) (length av)")
  case (Inl e)
  with assms(1) show ?thesis by (simp add: assign_tables_to_matches_def)
next
  case (Inr mx)
  obtain r1 ms1 where g: "get_permutations teams ms (permutations av (length ms)) = (r1, ms1)"
    by (cases "get_permutations teams ms (permutations av (length ms))")
  note eq = get_permutations_table_assigned [OF g]
  with assms(2) have un: "\<forall>m\<in>set ms1. table_assigned m = None"
    by (metis (no_types, lifting) image_iff list.set_map)
  from reset_assignments_unassigned [OF un]
  have rs: "reset_assignments ms1 teams = (None, ms1, teams)" .
  from assms(1) Inr g rs eq show ?thesis
    by (auto simp: assign_tables_to_matches_def split: sum.splits bool.splits if_splits)
qed


lemma try_combo_one_table:
  "try_combo mtch st tbls = Inr st' \<Longrightarrow> one_table mtch st \<Longrightarrow> one_table mtch st'"
proof (induction mtch st tbls rule: try_combo.induct)
  case (1 mtch st)
  then show ?case by simp
next
  case (2 mtch l wa used tbl tbls)
  then show ?case
    by (auto simp: one_table_def split: list.splits if_splits)
qed

lemma try_combos_one_table:
  "try_combos mtch st combos = Inr st' \<Longrightarrow> one_table mtch st \<Longrightarrow> one_table mtch st'"
proof (induction combos arbitrary: st)
  case Nil
  then show ?case by simp
next
  case (Cons c cs)
  then show ?case by (auto split: sum.splits dest: try_combo_one_table)
qed

lemma match_loop_exhausted:
  "match_loop (l, [], None) [] ms = Inr ((l, [], None), length ms)"
  by (induction ms) simp_all

lemma match_loop_at_most_one:
  assumes "match_loop (l, [], None) combos ms = Inr ((l', wa', used'), k)"
  shows "length wa' \<le> 1"
proof (cases ms)
  case Nil
  with assms show ?thesis by simp
next
  case (Cons m rest)
  with assms obtain st1 where t: "try_combos m (l, [], None) combos = Inr st1"
    by (auto split: sum.splits)
  obtain l1 wa1 used1 where st1: "st1 = (l1, wa1, used1)" by (cases st1)
  have one: "one_table m (l1, wa1, used1)"
    using try_combos_one_table [OF t] by (simp add: one_table_def st1)
  from assms Cons t st1 obtain k' where
    rest: "match_loop (l1, wa1, used1) [] rest = Inr ((l', wa', used'), k')"
    by (auto split: sum.splits)
  show ?thesis
  proof (cases rest)
    case Nil
    with rest one show ?thesis by (auto simp: one_table_def)
  next
    case (Cons m2 rest2)
    with rest have "used1 = None" by (auto split: if_splits)
    with one have "wa1 = []" by (auto simp: one_table_def)
    with rest \<open>used1 = None\<close> show ?thesis by (simp add: match_loop_exhausted)
  qed
qed

lemma assign_week_exclusive:
  assumes "assign_week l week = Inr (l', as)"
  shows "\<forall>a\<in>set as. length (snd (snd a)) \<le> 1"
proof -
  from assms obtain wn d ms where week: "week = wn # d # ms"
    by (auto simp: assign_week_def split: list.splits)
  with assms obtain wa used k where
    m: "match_loop (l, [], None) (combinations table_pairs (length ms)) ms = Inr ((l', wa, used), k)"
    and as: "as = replicate k (wn, d, wa)"
    by (auto simp: assign_week_def split: sum.splits)
  from match_loop_at_most_one [OF m] as show ?thesis by auto
qed

lemma assign_schedule_exclusive:
  "assign_schedule l weeks = Inr (l', as) \<Longrightarrow> \<forall>a\<in>set as. length (snd (snd a)) \<le> 1"
proof (induction weeks arbitrary: l l' as)
  case Nil
  then show ?case by simp
next
  case (Cons week weeks)
  from Cons.prems obtain l1 as1 rest where
    w: "assign_week l week = Inr (l1, as1)" and r: "assign_schedule l1 weeks = Inr (l', rest)"
    and as: "as = as1 @ rest"
    by (auto split: sum.splits)
  from assign_week_exclusive [OF w] Cons.IH [OF r] as show ?case by auto
qed

lemma short_distinct: "length xs \<le> 1 \<Longrightarrow> distinct xs"
  by (cases xs) auto


lemma assign_loop_v2_held:
  assumes "assign_loop_v2 w ts ms = (e, w', ts', ms')"
    and "distinct (available_tables_v2 w)"
    and "\<forall>m\<in>set ms. assigned_table m = None"
  shows "distinct (held ms') \<and> set (held ms') \<subseteq> set (available_tables_v2 w)"
  using assms
proof (induction w ts ms arbitrary: e w' ts' ms' rule: assign_loop_v2.induct)
  case (1 w ts)
  then show ?case by (simp add: held_Nil)
next
  case (2 w ts m ms)
  show ?case
  proof (cases "has_bye m (bye_team_id_v2 w)")
    case True
    with "2.prems"(1) obtain ms1 where l: "assign_loop_v2 w ts ms = (e, w', ts', ms1)" and ms': "ms' = m # ms1"
      by (auto split: prod.splits)
    from "2.IH"(1) [OF True l] "2.prems" have "distinct (held ms1) \<and> set (held ms1) \<subseteq> set (available_tables_v2 w)"
      by simp
    with ms' "2.prems"(3) show ?thesis by (simp add: held_Cons)
  next
    case False
    show ?thesis
    proof (cases "find_best_table_v2 w ts m")
      case (Inl err)
      with False "2.prems" show ?thesis by (auto simp: held_def map_filter_def filter_empty_conv)
    next
      case (Inr res)
      show ?thesis
      proof (cases res)
        case None
        with Inr False "2.prems" show ?thesis by (auto simp: held_def map_filter_def filter_empty_conv)
      next
        case (Some r)
        obtain m1 ts1 where at: "assign_table m r ts = (m1, ts1)" by (cases "assign_table m r ts")
        then have m1: "assigned_table m1 = Some r" by (auto simp: assign_table_def)
        let ?w1 = "w\<lparr>available_tables_v2 := remove1 r (available_tables_v2 w)\<rparr>"
        obtain e2 w2 ts2 ms2 where l: "assign_loop_v2 ?w1 ts1 ms = (e2, w2, ts2, ms2)"
          by (metis prod_cases4)
        with "2.prems"(1) False Inr Some at have ms': "ms' = m1 # ms2" by simp
        have rin: "r \<in> set (available_tables_v2 w)"
          using Inr Some by (intro find_best_table_v2_available) simp
        have "distinct (held ms2) \<and> set (held ms2) \<subseteq> set (available_tables_v2 ?w1)"
          using "2.IH"(2) [OF False Inr Some at [symmetric] l] "2.prems"(2,3) by simp
        then have d: "distinct (held ms2)" and sub: "set (held ms2) \<subseteq> set (available_tables_v2 w) - {r}"
          using "2.prems"(2) by simp_all
        from d sub rin show ?thesis by (auto simp: ms' held_Cons m1)
      qed
    qed
  qed
qed

lemma assign_tables_held:
  assumes "distinct order" and "\<forall>m\<in>set (matches w). assigned_table m = None"
  shows "distinct (held (matches (fst (snd (assign_tables w ts order)))))"
proof -
  let ?w1 = "w\<lparr>available_tables := order, total_tables := Some (length ts)\<rparr>"
  obtain e w2 ts' ms' where l: "assign_loop ?w1 ts (matches w) = (e, w2, ts', ms')"
    by (metis prod_cases4)
  from assign_loop_held [OF l] assms have "distinct (held ms')" by simp
  with l show ?thesis by (simp add: assign_tables_def Let_def)
qed

lemma assign_tables_v2_held:
  assumes "distinct order" and "\<forall>m\<in>set (matches_v2 w). assigned_table m = None"
  shows "distinct (held (matches_v2 (fst (snd (assign_tables_v2 w ts order)))))"
proof -
  let ?w1 = "w\<lparr>available_tables_v2 := order\<rparr>"
  obtain e w2 ts' ms' where l: "assign_loop_v2 ?w1 ts (matches_v2 w) = (e, w2, ts', ms')"
    by (metis prod_cases4)
  from assign_loop_v2_held [OF l] assms have "distinct (held ms')" by simp
  with l show ?thesis by (simp add: assign_tables_v2_def Let_def)
qed

lemma assign_tables_v3_held:
  assumes run: "fst (assign_tables_v3 w n teams st sm) = None"
    and st: "shuffle_of [0..<n] st"
    and un: "\<forall>m\<in>set (matches_v3 w). table_assigned m = None"
  shows "distinct (held_v3 (matches_v3 (fst (snd (snd (assign_tables_v3 w n teams st sm))))))"
proof (cases "week_id_v3 w = ''1''")
  case True
  obtain e ms' teams' where f: "assign_first_week sm st teams = (e, ms', teams')"
    by (metis prod_cases3)
  with run True have e: "e = None" by (simp add: assign_tables_v3_def)
  from assign_first_week_tables [OF f [unfolded e]]
  have "held_v3 ms' = take (length sm) (rev st)" by (intro held_v3_Some) simp
  moreover from st have "distinct st"
    by (metis shuffle_of_def distinct_upt mset_eq_imp_distinct_iff)
  ultimately have "distinct (held_v3 ms')" by simp
  with f True show ?thesis by (simp add: assign_tables_v3_def)
next
  case False
  obtain res ms' teams' where a: "assign_tables_to_matches w (matches_v3 w) [0..<n] teams = (res, ms', teams')"
    by (metis prod_cases3)
  from assign_tables_to_matches_unassigned [OF a un] un
  have "\<forall>m\<in>set ms'. table_assigned m = None"
    by (metis (no_types, lifting) image_iff list.set_map)
  then have "held_v3 ms' = []" by (rule held_v3_None)
  with a False show ?thesis by (cases res) (simp_all add: assign_tables_v3_def)
qed

lemma assign_tables_v0_exclusive:
  assumes "assign_tables_v0 sched = Inr (l, as)"
  shows "\<forall>a\<in>set as. distinct (map snd (snd (snd a)))"
proof
  fix a assume "a \<in> set as"
  with assign_schedule_exclusive [OF assms [unfolded assign_tables_v0_def]]
  have "length (map snd (snd (snd a))) \<le> 1" by simp
  then show "distinct (map snd (snd (snd a)))" by (rule short_distinct)
qed

text \<open>
  Claim C1. After \<^verbatim>\<open>assign_tables\<close> has completed on a week without an exception, no
  two matches of the week hold the same table: in v1 and v2 (the matches enter
  unassigned, as \<^verbatim>\<open>Match.__init__\<close> leaves them, and \<open>order\<close> enumerates a set), in v3
  (the first week pops the shuffled tables one by one, a later week assigns nothing),
  and in the first script for every week of the returned list.
\<close>

theorem tables_exclusive_within_week:
  "(distinct order \<and> (\<forall>m\<in>set (matches w). assigned_table m = None)
      \<and> fst (assign_tables w ts order) = None
    \<longrightarrow> distinct (held (matches (fst (snd (assign_tables w ts order))))))
 \<and> (distinct order \<and> (\<forall>m\<in>set (matches_v2 wb). assigned_table m = None)
      \<and> fst (assign_tables_v2 wb ts order) = None
    \<longrightarrow> distinct (held (matches_v2 (fst (snd (assign_tables_v2 wb ts order))))))
 \<and> (shuffle_of [0..<n] st \<and> (\<forall>m\<in>set (matches_v3 wc). table_assigned m = None)
      \<and> fst (assign_tables_v3 wc n teams st sm) = None
    \<longrightarrow> distinct (held_v3 (matches_v3 (fst (snd (snd (assign_tables_v3 wc n teams st sm)))))))
 \<and> (assign_tables_v0 sched = Inr (l, as) \<longrightarrow> (\<forall>a\<in>set as. distinct (map snd (snd (snd a)))))"
  using assign_tables_held [of order w ts] assign_tables_v2_held [of order wb ts]
    assign_tables_v3_held [of wc n teams st sm] assign_tables_v0_exclusive [of sched l as]
  by blast

theorem tables_exclusive_within_week_witness:
  "fst (assign_tables (Week_init 1 ''1/7'' [(3, 4)] (Some 4) 4 2)
          [Table_init ''A'', Table_init ''B''] [0, 1]) = None
   \<and> distinct (held (matches (fst (snd (assign_tables (Week_init 1 ''1/7'' [(3, 4)] (Some 4) 4 2)
          [Table_init ''A'', Table_init ''B''] [0, 1])))))
   \<and> fst (assign_tables_v2 (Week_v2_init 1 ''1/7'' [(1, 2), (3, 4)] None 4)
          [Table_init ''A'', Table_init ''B''] [0, 1]) = None
   \<and> map assigned_table (matches_v2 (fst (snd (assign_tables_v2
          (Week_v2_init 1 ''1/7'' [(1, 2), (3, 4)] None 4)
          [Table_init ''A'', Table_init ''B''] [0, 1])))) = [Some 0, Some 1]
   \<and> distinct (held (matches_v2 (fst (snd (assign_tables_v2
          (Week_v2_init 1 ''1/7'' [(1, 2), (3, 4)] None 4)
          [Table_init ''A'', Table_init ''B''] [0, 1])))))
   \<and> fst (assign_tables_v3 (Week_v3_init ''2'' ''1/14'' [Match_v3_init 0 1, Match_v3_init 2 3] None) 1
          [Team_init 1 ''a'', Team_init 2 ''b'', Team_init 3 ''c'', Team_init 4 ''d'']
          [0] [Match_v3_init 2 3, Match_v3_init 0 1]) = None
   \<and> distinct (held_v3 (matches_v3 (fst (snd (snd (assign_tables_v3
          (Week_v3_init ''2'' ''1/14'' [Match_v3_init 0 1, Match_v3_init 2 3] None) 1
          [Team_init 1 ''a'', Team_init 2 ''b'', Team_init 3 ''c'', Team_init 4 ''d'']
          [0] [Match_v3_init 2 3, Match_v3_init 0 1]))))))
   \<and> map_sum id snd (assign_tables_v0 [[''1'', ''1/7'', ''1-2'']])
         = Inr [(''1'', ''1/7'', [(''1-2'', ''7-8'')])]
   \<and> distinct (map snd (snd (snd (''1'', ''1/7'', [(''1-2'', ''7-8'')]))))"
proof -
  let ?wa = "Week_init 1 ''1/7'' [(3, 4)] (Some 4) 4 2"
  let ?wb = "Week_v2_init 1 ''1/7'' [(1, 2), (3, 4)] None 4"
  let ?wc = "Week_v3_init ''2'' ''1/14'' [Match_v3_init 0 1, Match_v3_init 2 3] None"
  let ?ts = "[Table_init ''A'', Table_init ''B'']"
  let ?teams = "[Team_init 1 ''a'', Team_init 2 ''b'', Team_init 3 ''c'', Team_init 4 ''d'']"
  let ?sm = "[Match_v3_init 2 3, Match_v3_init 0 1]"
  let ?sched = "[[''1'', ''1/7'', ''1-2'']]"
  let ?as = "[(''1'', ''1/7'', [(''1-2'', ''7-8'')])]"
  have d: "distinct [0, 1 :: nat]" by simp
  have ua: "\<forall>m\<in>set (matches ?wa). assigned_table m = None"
    by (simp add: Week_init_def Match_init_def)
  have ub: "\<forall>m\<in>set (matches_v2 ?wb). assigned_table m = None"
    by (simp add: Week_v2_init_def Match_init_def)
  have uc: "\<forall>m\<in>set (matches_v3 ?wc). table_assigned m = None"
    by (simp add: Week_v3_init_def Match_v3_init_def)
  have sh: "shuffle_of [0..<1] [0 :: nat]"
    by (simp add: shuffle_of_def)
  have ra: "fst (assign_tables ?wa ?ts [0, 1]) = None"
    by code_simp
  have rb: "fst (assign_tables_v2 ?wb ?ts [0, 1]) = None"
    by code_simp
  have rb': "map assigned_table (matches_v2 (fst (snd (assign_tables_v2 ?wb ?ts [0, 1]))))
               = [Some 0, Some 1]"
    by code_simp
  have rc: "fst (assign_tables_v3 ?wc 1 ?teams [0] ?sm) = None"
    by code_simp
  have r0': "map_sum id snd (assign_tables_v0 ?sched) = Inr ?as"
    by code_simp
  then obtain l0 where r0: "assign_tables_v0 ?sched = Inr (l0, ?as)"
    by (cases "assign_tables_v0 ?sched") auto
  from tables_exclusive_within_week [of "[0, 1]" ?wa ?ts ?wb 1 "[0]" ?wc ?teams ?sm ?sched l0 ?as]
    d ua ub uc sh ra rb rc r0
  have "distinct (held (matches (fst (snd (assign_tables ?wa ?ts [0, 1])))))"
    and "distinct (held (matches_v2 (fst (snd (assign_tables_v2 ?wb ?ts [0, 1])))))"
    and "distinct (held_v3 (matches_v3 (fst (snd (snd (assign_tables_v3 ?wc 1 ?teams [0] ?sm))))))"
    and "\<forall>a\<in>set ?as. distinct (map snd (snd (snd a)))"
    by blast+
  with ra rb rb' rc r0' show ?thesis by simp
qed

section \<open>What the runs do\<close>

text \<open>Facts about whole runs that several of the statements below rest on: a v3 run on
  the objects as built, a v1 run, the ranking of v2, and the two dictionaries of the
  first script.\<close>

lemma permutations_too_long: "length xs < r \<Longrightarrow> permutations xs r = []"
proof (induction r arbitrary: xs)
  case 0
  then show ?case by simp
next
  case (Suc r)
  have "permutations (take i xs @ drop (Suc i) xs) r = []" if "i < length xs" for i
  proof -
    from that Suc.prems have "length (take i xs @ drop (Suc i) xs) < r" by simp
    then show ?thesis by (rule Suc.IH)
  qed
  then show ?case by (simp add: concat_eq_Nil_conv)
qed

lemma permutations_nonempty: "k \<le> length xs \<Longrightarrow> permutations xs k \<noteq> []"
proof (induction k arbitrary: xs)
  case 0
  show ?case by simp
next
  case (Suc k)
  then obtain x xs' where xs: "xs = x # xs'" by (cases xs) auto
  with Suc.prems have "k \<le> length xs'" by simp
  from Suc.IH [OF this] have ne: "permutations xs' k \<noteq> []" .
  have "0 < length xs" using xs by simp
  then have u: "[0..<length xs] = 0 # [Suc 0..<length xs]"
    by (rule upt_conv_Cons)
  show ?case
    unfolding permutations.simps u using ne xs by simp
qed

lemma permutations_first:
  assumes "0 < k" and "k \<le> length xs"
  shows "\<exists>r rs ps. permutations xs k = (r # rs) # ps"
proof -
  from assms obtain j where k: "k = Suc j" by (cases k) auto
  from assms k obtain x xs' where xs: "xs = x # xs'" by (cases xs) auto
  with assms k have "j \<le> length xs'" by simp
  from permutations_nonempty [OF this] obtain p ps where p: "permutations xs' j = p # ps"
    by (cases "permutations xs' j") auto
  have "0 < length xs" using xs by simp
  then have u: "[0..<length xs] = 0 # [Suc 0..<length xs]"
    by (rule upt_conv_Cons)
  show ?thesis
    unfolding k permutations.simps u using p xs by simp
qed

lemma built_no_repeat:
  assumes "built_v3 teams ms" and "m \<in> set ms"
  shows "\<not> repeats teams m r"
proof -
  from assms have h: "home_team_v3 m < length teams" and a: "away_team_v3 m < length teams"
    and n: "\<forall>t\<in>set teams. tables_assigned t = None"
    by (auto simp: built_v3_def)
  from h n have "tables_assigned (teams ! home_team_v3 m) = None" by simp
  moreover from a n have "tables_assigned (teams ! away_team_v3 m) = None" by simp
  ultimately show ?thesis by (simp add: repeats_def played_last_def)
qed

lemma built_assign_table_v3:
  assumes "built_v3 teams ms" and "m \<in> set ms"
  shows "assign_table_v3 m r teams = (Some AttributeError, m\<lparr>table_assigned := Some r\<rparr>, teams)"
proof -
  from assms have "tables_assigned (teams ! home_team_v3 m) = None"
    by (auto simp: built_v3_def)
  then show ?thesis by (simp add: assign_table_v3_def history_append_def)
qed

lemma built_remove_table:
  assumes "built_v3 teams ms" and "m \<in> set ms"
  shows "remove_table m teams = (Some AttributeError, m\<lparr>table_assigned := None\<rparr>, teams)"
proof -
  from assms have "tables_assigned (teams ! home_team_v3 m) = None"
    by (auto simp: built_v3_def)
  then show ?thesis by (simp add: remove_table_def history_pop_def)
qed

lemma built_reset_assignments:
  "\<forall>m\<in>set ms. table_assigned m = None \<Longrightarrow> reset_assignments ms teams = (None, ms, teams)"
  by (induction ms) simp_all

lemma built_first_week:
  assumes "built_v3 teams (m # ms)" and "st \<noteq> []"
  shows "assign_first_week (m # ms) st teams =
           (Some AttributeError, m\<lparr>table_assigned := Some (last st)\<rparr> # ms, teams)"
  using assms built_assign_table_v3 [OF assms(1), of m "last st"] by simp

lemma built_search:
  assumes b: "built_v3 teams ms" and ne: "ms \<noteq> []" and le: "length ms \<le> length av"
  shows "get_permutations teams ms (permutations av (length ms)) = (Inl AttributeError, ms)"
proof -
  from ne obtain m ms' where ms: "ms = m # ms'" by (cases ms) auto
  from permutations_first [of "length ms" av] ne le obtain r rs ps where
    p: "permutations av (length ms) = (r # rs) # ps" by auto
  from built_no_repeat [OF b, of m r] ms have nr: "\<not> repeats teams m r" by simp
  from b ms have "candidate_tables m = None" by (simp add: built_v3_def)
  then have c: "assign_candidate_table m r = Inl AttributeError"
    by (simp add: assign_candidate_table_def)
  show ?thesis unfolding p unfolding ms using nr c by simp
qed

lemma built_week:
  assumes b: "built_v3 teams (matches_v3 w)" and s: "shuffle_of (matches_v3 w) sm"
  shows "assign_tables_v3 w n teams st sm =
     (if week_id_v3 w = ''1''
      then (case sm of
              [] \<Rightarrow> (None, False, w\<lparr>matches_v3 := []\<rparr>, teams)
            | m # rest \<Rightarrow>
                if st = [] then (Some IndexError, False, w\<lparr>matches_v3 := sm\<rparr>, teams)
                else (Some AttributeError, False,
                      w\<lparr>matches_v3 := m\<lparr>table_assigned := Some (last st)\<rparr> # rest\<rparr>, teams))
      else if n = 0 then (Some ZeroDivisionError, False, w, teams)
      else if matches_v3 w = [] then (None, False, w, teams)
      else if n < length (matches_v3 w) then (None, True, w, teams)
      else (Some AttributeError, False, w, teams))"
proof (cases "week_id_v3 w = ''1''")
  case True
  from s have "set sm = set (matches_v3 w)" by (metis shuffle_of_def set_mset_mset)
  with b have bs: "built_v3 teams sm" by (simp add: built_v3_def)
  show ?thesis
  proof (cases sm)
    case Nil
    with True show ?thesis by (simp add: assign_tables_v3_def)
  next
    case (Cons m rest)
    show ?thesis
    proof (cases "st = []")
      case e: True
      with True Cons show ?thesis by (simp add: assign_tables_v3_def)
    next
      case ne: False
      from built_first_week [OF bs [unfolded Cons] ne] True Cons ne
      show ?thesis by (simp add: assign_tables_v3_def)
    qed
  qed
next
  case False
  have same: "w\<lparr>matches_v3 := matches_v3 w\<rparr> = w" by simp
  show ?thesis
  proof (cases "n = 0")
    case True
    with False same show ?thesis
      by (simp add: assign_tables_v3_def assign_tables_to_matches_def max_usage_per_table_def)
  next
    case n: False
    show ?thesis
    proof (cases "matches_v3 w = []")
      case True
      with False n same show ?thesis
        by (simp add: assign_tables_v3_def assign_tables_to_matches_def max_usage_per_table_def)
    next
      case ne: False
      show ?thesis
      proof (cases "n < length (matches_v3 w)")
        case True
        then have p: "permutations [0..<n] (length (matches_v3 w)) = []"
          by (simp add: permutations_too_long)
        from b have "\<forall>m\<in>set (matches_v3 w). table_assigned m = None"
          by (simp add: built_v3_def)
        from built_reset_assignments [OF this] False n ne True p same show ?thesis
          by (simp add: assign_tables_v3_def assign_tables_to_matches_def max_usage_per_table_def)
      next
        case f: False
        then have "length (matches_v3 w) \<le> length [0..<n]" by simp
        from built_search [OF b ne this] False n ne f same show ?thesis
          by (simp add: assign_tables_v3_def assign_tables_to_matches_def max_usage_per_table_def)
      qed
    qed
  qed
qed

lemma held_v3_first:
  "\<forall>m\<in>set rest. table_assigned m = None \<Longrightarrow>
     held_v3 (m\<lparr>table_assigned := Some r\<rparr> # rest) = [r]"
  using held_v3_None [of rest] by (simp add: held_v3_def List.map_filter_simps)

lemma built_week_outcome:
  assumes b: "built_v3 teams (matches_v3 w)" and s: "shuffle_of (matches_v3 w) sm"
  shows "\<exists>e warned w'. assign_tables_v3 w n teams st sm = (e, warned, w', teams)
           \<and> length (held_v3 (matches_v3 w')) \<le> 1
           \<and> (e = None \<longrightarrow> (\<forall>m\<in>set (matches_v3 w'). table_assigned m = None))"
proof -
  from s have ss: "set sm = set (matches_v3 w)" by (metis shuffle_of_def set_mset_mset)
  from b have un: "\<forall>m\<in>set (matches_v3 w). table_assigned m = None"
    by (simp add: built_v3_def)
  with ss have uns: "\<forall>m\<in>set sm. table_assigned m = None" by simp
  note r = built_week [OF b s, of n st]
  show ?thesis
  proof (cases "week_id_v3 w = ''1''")
    case True
    show ?thesis
    proof (cases sm)
      case Nil
      with r True show ?thesis by (auto simp add: held_v3_None)
    next
      case (Cons m rest)
      with uns have ur: "\<forall>m\<in>set rest. table_assigned m = None" by simp
      show ?thesis
      proof (cases "st = []")
        case e: True
        with r True Cons uns show ?thesis by (auto simp add: held_v3_None)
      next
        case False
        with r True Cons held_v3_first [OF ur, where m = m and r = "last st"] show ?thesis by auto
      qed
    qed
  next
    case False
    with r un show ?thesis by (auto simp add: held_v3_None)
  qed
qed

lemma held_run_Cons: "held_run (w # ws) = held_v3 (matches_v3 w) @ held_run ws"
  by (simp add: held_run_def)

lemma held_run_unassigned:
  "\<forall>w\<in>set ws. \<forall>m\<in>set (matches_v3 w). table_assigned m = None \<Longrightarrow> held_run ws = []"
  by (induction ws) (simp_all add: held_run_def held_v3_None)

lemma rearranged_Cons:
  assumes "rearranged rnd i (w # ws)"
  shows "shuffle_of (matches_v3 w) (snd (rnd i))" and "rearranged rnd (Suc i) ws"
proof -
  from assms have a: "\<forall>j<length (w # ws). shuffle_of (matches_v3 ((w # ws) ! j)) (snd (rnd (i + j)))"
    by (simp add: rearranged_def)
  from a [rule_format, of 0] show "shuffle_of (matches_v3 w) (snd (rnd i))" by simp
  show "rearranged rnd (Suc i) ws"
    unfolding rearranged_def
  proof (intro allI impI)
    fix j assume "j < length ws"
    with a [rule_format, of "Suc j"] show "shuffle_of (matches_v3 (ws ! j)) (snd (rnd (Suc i + j)))"
      by simp
  qed
qed

lemma built_run:
  assumes "\<forall>w\<in>set ws. built_v3 teams (matches_v3 w)" and "rearranged rnd i ws"
    and "assign_weeks_v3 rnd wt n i ws teams = (e, warnings, ws', teams')"
  shows "teams' = teams \<and> length (held_run ws') \<le> 1"
  using assms
proof (induction ws arbitrary: i e warnings ws' teams')
  case Nil
  then show ?case by (simp add: held_run_def)
next
  case (Cons w ws)
  define w0 where "w0 = set_weeks_total wt w"
  have m0: "matches_v3 w0 = matches_v3 w" by (simp add: w0_def set_weeks_total_def)
  from Cons.prems(1) have b: "built_v3 teams (matches_v3 w0)" by (simp add: m0)
  from rearranged_Cons [OF Cons.prems(2)] have s: "shuffle_of (matches_v3 w0) (snd (rnd i))"
    and rr: "rearranged rnd (Suc i) ws" by (simp_all add: m0)
  from built_week_outcome [OF b s, of n "fst (rnd i)"] obtain e1 warned w1 where
    a: "assign_tables_v3 w0 n teams (fst (rnd i)) (snd (rnd i)) = (e1, warned, w1, teams)"
    and h: "length (held_v3 (matches_v3 w1)) \<le> 1"
    and u: "e1 = None \<longrightarrow> (\<forall>m\<in>set (matches_v3 w1). table_assigned m = None)"
    by blast
  from Cons.prems(1) have rest: "\<forall>w\<in>set ws. built_v3 teams (matches_v3 w)" by simp
  then have "\<forall>w\<in>set ws. \<forall>m\<in>set (matches_v3 w). table_assigned m = None"
    by (simp add: built_v3_def)
  from held_run_unassigned [OF this] have hr: "held_run ws = []" .
  show ?case
  proof (cases e1)
    case (Some x)
    with Cons.prems(3) a have "teams' = teams" and "ws' = w1 # ws"
      by (simp_all add: w0_def [symmetric])
    with h hr show ?thesis by (simp add: held_run_Cons)
  next
    case None
    obtain e2 warnings2 ws2 teams2 where
      l: "assign_weeks_v3 rnd wt n (Suc i) ws teams = (e2, warnings2, ws2, teams2)"
      by (metis prod_cases4)
    from Cons.IH [OF rest rr l] have t: "teams2 = teams" and h2: "length (held_run ws2) \<le> 1"
      by simp_all
    from Cons.prems(3) a None l have "teams' = teams2" and "ws' = w1 # ws2"
      by (simp_all add: w0_def [symmetric])
    moreover from u None have "held_v3 (matches_v3 w1) = []" by (simp add: held_v3_None)
    ultimately show ?thesis using t h2 by (simp add: held_run_Cons)
  qed
qed












lemma last20_snoc: "last20 (last20 xs @ [y]) = last20 (xs @ [y])"
proof (cases "length xs \<le> 20")
  case True
  then show ?thesis by (simp add: last20_def)
next
  case False
  then have "length xs - 20 + 1 = Suc (length xs) - 20" by simp
  with False show ?thesis by (simp add: last20_def)
qed

lemma deque_append_last20: "deque_append x h = last20 (h @ [x])"
  by (simp add: deque_append_def last20_def Let_def)

lemma record_assignment_steps:
  "record_assignment home away tbl l =
     push_history away tbl (bump_usage away tbl (push_history home tbl (bump_usage home tbl l)))"
  by (simp add: record_assignment_def push_history_def bump_usage_def)

lemma credited_step:
  assumes "\<forall>tm. \<exists>xs. credited l tm xs"
  shows "\<forall>tm. \<exists>xs. credited (push_history t tbl (bump_usage t tbl l)) tm xs"
proof
  fix tm
  from assms obtain xs where c: "credited l tm xs" by blast
  show "\<exists>xs. credited (push_history t tbl (bump_usage t tbl l)) tm xs"
  proof (cases "tm = t")
    case True
    from c True have "credited (push_history t tbl (bump_usage t tbl l)) tm (xs @ [tbl])"
      by (simp add: credited_def push_history_def bump_usage_def deque_append_last20 last20_snoc)
    then show ?thesis ..
  next
    case False
    with c have "credited (push_history t tbl (bump_usage t tbl l)) tm xs"
      by (simp add: credited_def push_history_def bump_usage_def)
    then show ?thesis ..
  qed
qed

lemma credited_record_assignment:
  "\<forall>tm. \<exists>xs. credited l tm xs \<Longrightarrow> \<forall>tm. \<exists>xs. credited (record_assignment home away tbl l) tm xs"
  unfolding record_assignment_steps by (intro credited_step)

lemma usage_kept_record_assignment: "usage_kept l (record_assignment home away tbl l)"
  by (simp add: usage_kept_def record_assignment_def push_history_def bump_usage_def)

lemma usage_kept_refl: "usage_kept l l"
  by (simp add: usage_kept_def)

lemma usage_kept_trans: "usage_kept a b \<Longrightarrow> usage_kept b c \<Longrightarrow> usage_kept a c"
  unfolding usage_kept_def by (meson order_trans)

lemma try_combo_ledger:
  assumes "try_combo mtch (l, wa, used) combo = Inr (l', wa', used')"
  shows "l' = l \<or> (\<exists>home away tbl. l' = record_assignment home away tbl l)"
  using assms
proof (induction combo)
  case Nil
  then show ?case by simp
next
  case (Cons tbl tbls)
  then show ?case
    by (auto split: list.splits if_splits)
qed

lemma try_combo_invariant:
  assumes "try_combo mtch (l, wa, used) combo = Inr (l', wa', used')"
  shows "usage_kept l l' \<and> ((\<forall>tm. \<exists>xs. credited l tm xs) \<longrightarrow> (\<forall>tm. \<exists>xs. credited l' tm xs))"
proof -
  from try_combo_ledger [OF assms] consider "l' = l"
    | home away tbl where "l' = record_assignment home away tbl l" by blast
  then show ?thesis
  proof cases
    case 1
    then show ?thesis by (simp add: usage_kept_refl)
  next
    case 2
    then show ?thesis
      using usage_kept_record_assignment [of l home away tbl]
        credited_record_assignment [of l home away tbl] by blast
  qed
qed

lemma try_combos_invariant:
  assumes "try_combos mtch (l, wa, used) combos = Inr (l', wa', used')"
  shows "usage_kept l l' \<and> ((\<forall>tm. \<exists>xs. credited l tm xs) \<longrightarrow> (\<forall>tm. \<exists>xs. credited l' tm xs))"
  using assms
proof (induction combos arbitrary: l wa used)
  case Nil
  then show ?case by (simp add: usage_kept_refl)
next
  case (Cons combo combos)
  from Cons.prems obtain l1 wa1 used1 where
    a: "try_combo mtch (l, wa, used) combo = Inr (l1, wa1, used1)" and
    b: "try_combos mtch (l1, wa1, used1) combos = Inr (l', wa', used')"
    by (auto split: sum.splits)
  from try_combo_invariant [OF a] Cons.IH [OF b] show ?case
    by (blast intro: usage_kept_trans)
qed

lemma match_loop_invariant:
  assumes "match_loop (l, wa, used) combos ms = Inr ((l', wa', used'), k)"
  shows "usage_kept l l' \<and> ((\<forall>tm. \<exists>xs. credited l tm xs) \<longrightarrow> (\<forall>tm. \<exists>xs. credited l' tm xs))"
  using assms
proof (induction ms arbitrary: l wa used combos k)
  case Nil
  then show ?case by (simp add: usage_kept_refl)
next
  case (Cons mtch ms)
  from Cons.prems obtain l1 wa1 used1 k1 where
    a: "try_combos mtch (l, wa, used) combos = Inr (l1, wa1, used1)" and
    b: "match_loop (l1, wa1, used1) [] ms = Inr ((l', wa', used'), k1)"
    by (auto split: sum.splits if_splits)
  from try_combos_invariant [OF a] Cons.IH [OF b] show ?case
    by (blast intro: usage_kept_trans)
qed

lemma assign_week_invariant:
  assumes "assign_week l week = Inr (l', as)"
  shows "usage_kept l l' \<and> ((\<forall>tm. \<exists>xs. credited l tm xs) \<longrightarrow> (\<forall>tm. \<exists>xs. credited l' tm xs))"
proof -
  from assms obtain week_number match_date ms wa used k where
    "match_loop (l, [], None) (combinations table_pairs (length ms)) ms = Inr ((l', wa, used), k)"
    by (auto simp: assign_week_def split: list.splits sum.splits)
  from match_loop_invariant [OF this] show ?thesis .
qed

lemma assign_schedule_invariant:
  assumes "assign_schedule l sched = Inr (l', as)"
  shows "usage_kept l l' \<and> ((\<forall>tm. \<exists>xs. credited l tm xs) \<longrightarrow> (\<forall>tm. \<exists>xs. credited l' tm xs))"
  using assms
proof (induction sched arbitrary: l as)
  case Nil
  then show ?case by (simp add: usage_kept_refl)
next
  case (Cons week weeks)
  from Cons.prems obtain l1 as1 rest where
    a: "assign_week l week = Inr (l1, as1)" and
    b: "assign_schedule l1 weeks = Inr (l', rest)"
    by (auto split: sum.splits)
  from assign_week_invariant [OF a] Cons.IH [OF b] show ?case
    by (blast intro: usage_kept_trans)
qed

lemma credited_init: "credited ledger_init tm []"
  by (simp add: credited_def ledger_init_def last20_def)

lemma assign_tables_v0_credited:
  assumes "assign_tables_v0 sched = Inr (l, as)"
  shows "\<forall>tm. \<exists>xs. credited l tm xs"
proof -
  have "\<forall>tm. \<exists>xs. credited ledger_init tm xs" using credited_init by blast
  with assign_schedule_invariant [OF assms [unfolded assign_tables_v0_def]] show ?thesis by blast
qed

lemma record_matches_unassigned:
  "\<forall>m\<in>set ms. assigned_table m = None \<Longrightarrow> record_matches ms ts = ts"
  by (induction ms) (simp_all add: record_matches_def record_match_def)

lemma assign_loop_ledger:
  assumes "\<forall>m\<in>set ms. assigned_table m = None"
    and "assign_loop w ts ms = (e, w', ts', ms')"
  shows "ts' = record_matches ms' ts"
  using assms
proof (induction ms arbitrary: w ts e w' ts' ms')
  case Nil
  then show ?case by (simp add: record_matches_def)
next
  case (Cons m ms)
  from Cons.prems(1) have un: "\<forall>m\<in>set ms. assigned_table m = None"
    and mn: "assigned_table m = None" by simp_all
  from un mn have all: "record_matches (m # ms) ts = ts"
    by (rule_tac record_matches_unassigned) simp
  show ?case
  proof (cases "has_bye m (bye_team_id w)")
    case True
    obtain e1 w1 ts1 ms1 where l: "assign_loop w ts ms = (e1, w1, ts1, ms1)"
      by (metis prod_cases4)
    from Cons.IH [OF un l] have "ts1 = record_matches ms1 ts" .
    with Cons.prems(2) True l mn show ?thesis
      by (auto simp: record_matches_def record_match_def)
  next
    case False
    show ?thesis
    proof (cases "find_best_table w ts m (bye_team_id w)")
      case (Inl x)
      with Cons.prems(2) False all show ?thesis by auto
    next
      case (Inr ro)
      show ?thesis
      proof (cases ro)
        case None
        with Cons.prems(2) False Inr all show ?thesis by auto
      next
        case (Some r)
        define m1 where "m1 = m\<lparr>assigned_table := Some r\<rparr>"
        define t1 where "t1 = ts[r := add_team (away_team m) (add_team (home_team m) (ts ! r))]"
        have at: "assign_table m r ts = (m1, t1)"
          by (simp add: assign_table_def m1_def t1_def)
        obtain e1 w1 ts1 ms1 where
          l: "assign_loop (w\<lparr>available_tables := remove1 r (available_tables w)\<rparr>) t1 ms = (e1, w1, ts1, ms1)"
          by (metis prod_cases4)
        from Cons.IH [OF un l] have i: "ts1 = record_matches ms1 t1" .
        have "record_match m1 ts = t1" by (simp add: record_match_def m1_def t1_def)
        then have "record_matches (m1 # ms1) ts = record_matches ms1 t1"
          by (simp add: record_matches_def)
        with Cons.prems(2) False Inr Some at l i show ?thesis by auto
      qed
    qed
  qed
qed

lemma assign_tables_ledger:
  assumes "\<forall>m\<in>set (matches w). assigned_table m = None"
    and "assign_tables w ts order = (e, w', ts')"
  shows "ts' = record_matches (matches w') ts"
proof -
  obtain e1 w2 ts1 ms1 where
    l: "assign_loop (w\<lparr>available_tables := order, total_tables := Some (length ts)\<rparr>) ts (matches w) = (e1, w2, ts1, ms1)"
    by (metis prod_cases4)
  from assign_loop_ledger [OF assms(1) l] have "ts1 = record_matches ms1 ts" .
  with assms(2) l show ?thesis by (auto simp: assign_tables_def Let_def)
qed

lemma assign_loop_v2_ledger:
  assumes "\<forall>m\<in>set ms. assigned_table m = None"
    and "assign_loop_v2 w ts ms = (e, w', ts', ms')"
  shows "ts' = record_matches ms' ts"
  using assms
proof (induction ms arbitrary: w ts e w' ts' ms')
  case Nil
  then show ?case by (simp add: record_matches_def)
next
  case (Cons m ms)
  from Cons.prems(1) have un: "\<forall>m\<in>set ms. assigned_table m = None"
    and mn: "assigned_table m = None" by simp_all
  from un mn have all: "record_matches (m # ms) ts = ts"
    by (rule_tac record_matches_unassigned) simp
  show ?case
  proof (cases "has_bye m (bye_team_id_v2 w)")
    case True
    obtain e1 w1 ts1 ms1 where l: "assign_loop_v2 w ts ms = (e1, w1, ts1, ms1)"
      by (metis prod_cases4)
    from Cons.IH [OF un l] have "ts1 = record_matches ms1 ts" .
    with Cons.prems(2) True l mn show ?thesis
      by (auto simp: record_matches_def record_match_def)
  next
    case False
    show ?thesis
    proof (cases "find_best_table_v2 w ts m")
      case (Inl x)
      with Cons.prems(2) False all show ?thesis by auto
    next
      case (Inr ro)
      show ?thesis
      proof (cases ro)
        case None
        with Cons.prems(2) False Inr all show ?thesis by auto
      next
        case (Some r)
        define m1 where "m1 = m\<lparr>assigned_table := Some r\<rparr>"
        define t1 where "t1 = ts[r := add_team (away_team m) (add_team (home_team m) (ts ! r))]"
        have at: "assign_table m r ts = (m1, t1)"
          by (simp add: assign_table_def m1_def t1_def)
        obtain e1 w1 ts1 ms1 where
          l: "assign_loop_v2 (w\<lparr>available_tables_v2 := remove1 r (available_tables_v2 w)\<rparr>) t1 ms = (e1, w1, ts1, ms1)"
          by (metis prod_cases4)
        from Cons.IH [OF un l] have i: "ts1 = record_matches ms1 t1" .
        have "record_match m1 ts = t1" by (simp add: record_match_def m1_def t1_def)
        then have "record_matches (m1 # ms1) ts = record_matches ms1 t1"
          by (simp add: record_matches_def)
        with Cons.prems(2) False Inr Some at l i show ?thesis by auto
      qed
    qed
  qed
qed

lemma assign_tables_v2_ledger:
  assumes "\<forall>m\<in>set (matches_v2 w). assigned_table m = None"
    and "assign_tables_v2 w ts order = (e, w', ts')"
  shows "ts' = record_matches (matches_v2 w') ts"
proof -
  obtain e1 w2 ts1 ms1 where
    l: "assign_loop_v2 (w\<lparr>available_tables_v2 := order\<rparr>) ts (matches_v2 w) = (e1, w2, ts1, ms1)"
    by (metis prod_cases4)
  from assign_loop_v2_ledger [OF assms(1) l] have "ts1 = record_matches ms1 ts" .
  with assms(2) l show ?thesis by (auto simp: assign_tables_v2_def Let_def)
qed

lemma assign_first_week_progress:
  assumes "assign_first_week sm st teams = (e, ms', teams')"
  shows "\<exists>k. k \<le> length sm \<and> k \<le> length st
           \<and> map table_assigned (take k ms') = map Some (take k (rev st))
           \<and> drop k ms' = drop k sm
           \<and> (e = None \<longrightarrow> k = length sm)"
  using assms
proof (induction sm arbitrary: st teams e ms' teams')
  case Nil
  then show ?case by simp
next
  case (Cons m ms)
  show ?case
  proof (cases "st = []")
    case True
    with Cons.prems have "ms' = m # ms" and "e = Some IndexError" by simp_all
    then have "0 \<le> length (m # ms) \<and> 0 \<le> length st
           \<and> map table_assigned (take 0 ms') = map Some (take 0 (rev st))
           \<and> drop 0 ms' = drop 0 (m # ms)
           \<and> (e = None \<longrightarrow> 0 = length (m # ms))"
      by simp
    then show ?thesis by blast
  next
    case False
    then have rv: "rev st = last st # rev (butlast st)"
      by (metis append_butlast_last_id rev.simps(2) rev_rev_ident rev_singleton_conv rev_append append_Cons append_Nil)
    from False have len: "length st = Suc (length (butlast st))" by simp
    obtain e1 m1 teams1 where a: "assign_table_v3 m (last st) teams = (e1, m1, teams1)"
      by (metis prod_cases3)
    note t1 = assign_table_v3_assigned [OF a]
    show ?thesis
    proof (cases e1)
      case (Some err)
      with Cons.prems False a have ms': "ms' = m1 # ms" and e: "e = Some err" by simp_all
      from len have s0: "Suc 0 \<le> length st" by linarith
      have "Suc 0 \<le> length (m # ms) \<and> Suc 0 \<le> length st
           \<and> map table_assigned (take (Suc 0) ms') = map Some (take (Suc 0) (rev st))
           \<and> drop (Suc 0) ms' = drop (Suc 0) (m # ms)
           \<and> (e = None \<longrightarrow> Suc 0 = length (m # ms))"
        using s0 t1 by (simp add: ms' e rv)
      then show ?thesis by blast
    next
      case None
      obtain e2 ms2 teams2 where l: "assign_first_week ms (butlast st) teams1 = (e2, ms2, teams2)"
        by (metis prod_cases3)
      with Cons.prems False a None have ms': "ms' = m1 # ms2" and e: "e = e2" by simp_all
      from Cons.IH [OF l] obtain k where
        k: "k \<le> length ms" "k \<le> length (butlast st)"
           "map table_assigned (take k ms2) = map Some (take k (rev (butlast st)))"
           "drop k ms2 = drop k ms" "e2 = None \<longrightarrow> k = length ms"
        by blast
      from k(2) len have sk: "Suc k \<le> length st" by linarith
      have "Suc k \<le> length (m # ms) \<and> Suc k \<le> length st
           \<and> map table_assigned (take (Suc k) ms') = map Some (take (Suc k) (rev st))
           \<and> drop (Suc k) ms' = drop (Suc k) (m # ms)
           \<and> (e = None \<longrightarrow> Suc k = length (m # ms))"
        using k(1,3,4,5) sk t1 by (simp add: ms' e rv)
      then show ?thesis by blast
    qed
  qed
qed

section \<open>The ideal usage per table\<close>






section \<open>Configuration checks of v1\<close>

lemma read_schedule_odd:
  "odd (length (teams_of (filter playing file_rows))) \<Longrightarrow>
     read_schedule file_rows bye = Inl ValueError"
  by (simp add: read_schedule_def Let_def odd_iff_mod_2_eq_one)

lemma Manager_init_odd:
  assumes "odd (length (teams_of (filter playing file_rows)))"
  shows "\<exists>e. Manager_init fname cfg file_rows = Inl e"
  using read_schedule_odd [OF assms]
  by (auto simp: Manager_init_def split: sum.splits)

text \<open>
  Claim C7, as amended. When the number of different team numbers in the playing rows
  of the schedule (the bye team counts when it is scheduled) is odd, \<^verbatim>\<open>read_schedule\<close>
  raises \<^verbatim>\<open>ValueError\<close>: the manager is never built, no week object exists and no
  period is processed. When the file name and the configuration were accepted, this
  \<^verbatim>\<open>ValueError\<close> is the exception that ends the run.
\<close>

theorem odd_team_count_aborts:
  assumes "odd (length (teams_of (filter playing file_rows)))"
  shows "(\<exists>e. run_v1 order fname cfg file_rows = (Some e, None))
       \<and> read_schedule file_rows bye = Inl ValueError
       \<and> (validate_filename fname = Inr gs \<and> cfg = Inr c \<and> initialize_team_names c = Inr bye
            \<and> initialize_tables c bye 0 = Inr tabs
          \<longrightarrow> run_v1 order fname cfg file_rows = (Some ValueError, None))"
proof (intro conjI impI)
  from Manager_init_odd [OF assms] obtain e where "Manager_init fname cfg file_rows = Inl e"
    by blast
  then show "\<exists>e. run_v1 order fname cfg file_rows = (Some e, None)"
    by (simp add: run_v1_def)
  show r: "read_schedule file_rows bye = Inl ValueError"
    using assms by (rule read_schedule_odd)
  assume "validate_filename fname = Inr gs \<and> cfg = Inr c \<and> initialize_team_names c = Inr bye
            \<and> initialize_tables c bye 0 = Inr tabs"
  with r show "run_v1 order fname cfg file_rows = (Some ValueError, None)"
    by (simp add: run_v1_def Manager_init_def)
qed

theorem odd_team_count_aborts_witness:
  "odd (length (teams_of (filter playing [(1, ''1/7'', [(1, 2), (3, 1)]), (2, ''No Play'', [(7, 8)])])))
   \<and> run_v1 (\<lambda>i. [0]) ''787-2025-01-705-02-Schedule.csv''
        (Inr \<lparr>table_ids = Some [''T1''], table_keys = Some [''1''],
              team_keys = Some [''a'', ''b'', ''c''], bye_team_id_entry = None\<rparr>)
        [(1, ''1/7'', [(1, 2), (3, 1)]), (2, ''No Play'', [(7, 8)])]
       = (Some ValueError, None)"
proof -
  let ?rows = "[(1, ''1/7'', [(1, 2), (3, 1)]), (2, ''No Play'', [(7, 8)])]"
  let ?c = "\<lparr>table_ids = Some [''T1''], table_keys = Some [''1''],
              team_keys = Some [''a'', ''b'', ''c''], bye_team_id_entry = None\<rparr>"
  have o: "odd (length (teams_of (filter playing ?rows)))"
    by (simp add: teams_of_def playing_def)
  have v: "validate_filename ''787-2025-01-705-02-Schedule.csv''
             = Inr (''787'', ''2025'', ''01'', ''705'', ''02'')"
    by code_simp
  have n: "initialize_team_names ?c = Inr None"
    by code_simp
  have t: "initialize_tables ?c None 0 = Inr [(''1'', Table_init ''T1'')]"
    by (simp add: initialize_tables_def truthy_def)
  from odd_team_count_aborts [OF o, of "\<lambda>i. [0]" "''787-2025-01-705-02-Schedule.csv''" "Inr ?c" None
      "(''787'', ''2025'', ''01'', ''705'', ''02'')" ?c "[(''1'', Table_init ''T1'')]"] v n t
  have "run_v1 (\<lambda>i. [0]) ''787-2025-01-705-02-Schedule.csv'' (Inr ?c) ?rows = (Some ValueError, None)"
    by simp
  with o show ?thesis by simp
qed

text \<open>The claim as it stands fails on both counts. With one table and two matches a
  week the manager is built without an exception (\<^verbatim>\<open>initialize_tables\<close> compares with
  \<^verbatim>\<open>self.num_teams\<close> while it is still 0), and the run only ends inside the first week.
  With the bye team 4 scheduled next to the three teams 1, 2 and 3, the number of teams
  without the bye is odd and the manager is built as well.\<close>

theorem configuration_not_rejected:
  "map_sum id (\<lambda>m. (length (manager_tables m), manager_num_teams m, map (length \<circ> matches) (schedule m)))
      (Manager_init ''787-2025-01-705-02-Schedule.csv''
        (Inr \<lparr>table_ids = Some [''T1''], table_keys = Some [''1''],
              team_keys = Some [''a'', ''b'', ''c'', ''d''], bye_team_id_entry = None\<rparr>)
        [(1, ''1/7'', [(1, 2), (3, 4)])])
     = Inr (1, 4, [2])
   \<and> map_sum id (\<lambda>m. (manager_bye_team_id m, manager_num_teams m))
      (Manager_init ''787-2025-01-705-02-Schedule.csv''
        (Inr \<lparr>table_ids = Some [''T1''], table_keys = Some [''1''],
              team_keys = Some [''a'', ''b'', ''c'', ''bye''], bye_team_id_entry = Some (Some 4)\<rparr>)
        [(1, ''1/7'', [(1, 2), (3, 4)])])
     = Inr (Some 4, 4)
   \<and> length (filter (\<lambda>tm. \<not> same_str tm (Some 4)) (teams_of (filter playing [(1, ''1/7'', [(1, 2), (3, 4)])]))) = 3"
  by code_simp


section \<open>Usage accounting\<close>

lemma history_kept_refl: "history_kept h h"
  by (simp add: history_kept_def)

lemma history_kept_append: "history_kept h (h @ xs)"
  by (simp add: history_kept_def)

lemma history_kept_trans:
  assumes "history_kept a b" and "history_kept b c"
  shows "history_kept a c"
proof -
  from assms(1) have ab: "take (length a) b = a" by (simp add: history_kept_def)
  from assms(2) have bc: "take (length b) c = b" by (simp add: history_kept_def)
  have "length (take (length a) b) = min (length a) (length b)" by simp
  with ab have le: "length a \<le> length b" by simp
  have "take (length a) c = take (length a) (take (length b) c)"
    using le by (simp add: min_absorb1)
  also have "\<dots> = a" by (simp only: bc ab)
  finally show ?thesis by (simp add: history_kept_def)
qed

lemma table_grows_refl: "table_grows t t"
  by (simp add: table_grows_def history_kept_refl)

lemma table_grows_trans:
  "table_grows a b \<Longrightarrow> table_grows b c \<Longrightarrow> table_grows a c"
  unfolding table_grows_def
  by (meson history_kept_trans order_trans)

lemma get_usage_add_team:
  "get_usage (add_team tm t) tm' = (if tm' = tm then get_usage t tm + 1 else get_usage t tm')"
  by (simp add: get_usage_def add_team_def update_conv')

lemma add_team_grows: "table_grows t (add_team tm t)"
  unfolding table_grows_def
proof (intro conjI allI)
  fix tm' show "get_usage t tm' \<le> get_usage (add_team tm t) tm'"
    by (simp add: get_usage_add_team)
  show "history_kept (last_used_by t) (last_used_by (add_team tm t))"
    by (simp add: add_team_def history_kept_append)
qed

lemma tables_grow_refl: "tables_grow ts ts"
  by (simp add: tables_grow_def table_grows_refl)

lemma tables_grow_trans:
  "tables_grow a b \<Longrightarrow> tables_grow b c \<Longrightarrow> tables_grow a c"
  unfolding tables_grow_def by (auto intro: table_grows_trans)

lemma assign_table_grows:
  assumes "assign_table m r ts = (m', ts')"
  shows "tables_grow ts ts'"
proof -
  from assms have ts': "ts' = ts[r := add_team (away_team m) (add_team (home_team m) (ts ! r))]"
    by (simp add: assign_table_def)
  have g: "table_grows (ts ! r) (add_team (away_team m) (add_team (home_team m) (ts ! r)))"
    by (rule table_grows_trans [OF add_team_grows add_team_grows])
  have "table_grows (ts ! i) (ts' ! i)" if "i < length ts" for i
  proof (cases "i = r")
    case True
    with that g show ?thesis by (simp add: ts')
  next
    case False
    then show ?thesis by (simp add: ts' table_grows_refl)
  qed
  then show ?thesis by (simp add: tables_grow_def ts')
qed

lemma assign_loop_grows:
  "assign_loop w ts ms = (e, w', ts', ms') \<Longrightarrow> tables_grow ts ts'"
proof (induction w ts ms arbitrary: e w' ts' ms' rule: assign_loop.induct)
  case (1 w ts)
  then show ?case by (simp add: tables_grow_refl)
next
  case (2 w ts m ms)
  show ?case
  proof (cases "has_bye m (bye_team_id w)")
    case True
    with "2.prems" obtain ms1 where "assign_loop w ts ms = (e, w', ts', ms1)"
      by (auto split: prod.splits)
    from "2.IH"(1) [OF True this] show ?thesis .
  next
    case False
    show ?thesis
    proof (cases "find_best_table w ts m (bye_team_id w)")
      case (Inl err)
      with False "2.prems" show ?thesis by (auto simp: tables_grow_refl)
    next
      case (Inr res)
      show ?thesis
      proof (cases res)
        case None
        with Inr False "2.prems" show ?thesis by (auto simp: tables_grow_refl)
      next
        case (Some r)
        obtain m1 ts1 where at: "assign_table m r ts = (m1, ts1)" by (cases "assign_table m r ts")
        let ?w1 = "w\<lparr>available_tables := remove1 r (available_tables w)\<rparr>"
        obtain e2 w2 ts2 ms2 where l: "assign_loop ?w1 ts1 ms = (e2, w2, ts2, ms2)"
          by (metis prod_cases4)
        with "2.prems" False Inr Some at have "ts' = ts2" by simp
        with "2.IH"(2) [OF False Inr Some at [symmetric] l] assign_table_grows [OF at]
        show ?thesis by (auto intro: tables_grow_trans)
      qed
    qed
  qed
qed

lemma assign_loop_v2_grows:
  "assign_loop_v2 w ts ms = (e, w', ts', ms') \<Longrightarrow> tables_grow ts ts'"
proof (induction w ts ms arbitrary: e w' ts' ms' rule: assign_loop_v2.induct)
  case (1 w ts)
  then show ?case by (simp add: tables_grow_refl)
next
  case (2 w ts m ms)
  show ?case
  proof (cases "has_bye m (bye_team_id_v2 w)")
    case True
    with "2.prems" obtain ms1 where "assign_loop_v2 w ts ms = (e, w', ts', ms1)"
      by (auto split: prod.splits)
    from "2.IH"(1) [OF True this] show ?thesis .
  next
    case False
    show ?thesis
    proof (cases "find_best_table_v2 w ts m")
      case (Inl err)
      with False "2.prems" show ?thesis by (auto simp: tables_grow_refl)
    next
      case (Inr res)
      show ?thesis
      proof (cases res)
        case None
        with Inr False "2.prems" show ?thesis by (auto simp: tables_grow_refl)
      next
        case (Some r)
        obtain m1 ts1 where at: "assign_table m r ts = (m1, ts1)" by (cases "assign_table m r ts")
        let ?w1 = "w\<lparr>available_tables_v2 := remove1 r (available_tables_v2 w)\<rparr>"
        obtain e2 w2 ts2 ms2 where l: "assign_loop_v2 ?w1 ts1 ms = (e2, w2, ts2, ms2)"
          by (metis prod_cases4)
        with "2.prems" False Inr Some at have "ts' = ts2" by simp
        with "2.IH"(2) [OF False Inr Some at [symmetric] l] assign_table_grows [OF at]
        show ?thesis by (auto intro: tables_grow_trans)
      qed
    qed
  qed
qed

lemma assign_tables_grows:
  "assign_tables w ts order = (e, w', ts') \<Longrightarrow> tables_grow ts ts'"
  by (auto simp: assign_tables_def Let_def split: prod.splits dest: assign_loop_grows)

lemma assign_tables_v2_grows:
  "assign_tables_v2 w ts order = (e, w', ts') \<Longrightarrow> tables_grow ts ts'"
  by (auto simp: assign_tables_v2_def Let_def split: prod.splits dest: assign_loop_v2_grows)

lemma assign_weeks_grows:
  "assign_weeks order i bye ws ts = (e, ws', ts') \<Longrightarrow> tables_grow ts ts'"
proof (induction ws arbitrary: i ts e ws' ts')
  case Nil
  then show ?case by (simp add: tables_grow_refl)
next
  case (Cons w ws)
  obtain e1 w1 where c: "calculate_usage_stats w ts bye = (e1, w1)"
    by (cases "calculate_usage_stats w ts bye")
  show ?case
  proof (cases e1)
    case (Some err)
    with Cons.prems c show ?thesis by (simp add: tables_grow_refl)
  next
    case None
    obtain e2 w2 ts2 where a: "assign_tables w1 ts (order i) = (e2, w2, ts2)"
      by (metis prod_cases3)
    note g = assign_tables_grows [OF a]
    show ?thesis
    proof (cases e2)
      case (Some err)
      with Cons.prems c None a g show ?thesis by simp
    next
      case n2: None
      obtain e3 ws3 ts3 where r: "assign_weeks order (Suc i) bye ws ts2 = (e3, ws3, ts3)"
        by (metis prod_cases3)
      with Cons.prems c None a n2 have "ts' = ts3" by simp
      with Cons.IH [OF r] g show ?thesis by (auto intro: tables_grow_trans)
    qed
  qed
qed

lemma assign_weeks_v2_grows:
  "assign_weeks_v2 order i ws ts = (e, ws', ts') \<Longrightarrow> tables_grow ts ts'"
proof (induction ws arbitrary: i ts e ws' ts')
  case Nil
  then show ?case by (simp add: tables_grow_refl)
next
  case (Cons w ws)
  obtain e2 w2 ts2 where a: "assign_tables_v2 w ts (order i) = (e2, w2, ts2)"
    by (metis prod_cases3)
  note g = assign_tables_v2_grows [OF a]
  show ?case
  proof (cases e2)
    case (Some err)
    with Cons.prems a g show ?thesis by simp
  next
    case None
    obtain e3 ws3 ts3 where r: "assign_weeks_v2 order (Suc i) ws ts2 = (e3, ws3, ts3)"
      by (metis prod_cases3)
    with Cons.prems a None have "ts' = ts3" by simp
    with Cons.IH [OF r] g show ?thesis by (auto intro: tables_grow_trans)
  qed
qed

lemma deque_append_short: "length h < 20 \<Longrightarrow> deque_append x h = h @ [x]"
  by (simp add: deque_append_def Let_def)

lemma deque_append_full: "length h = 20 \<Longrightarrow> deque_append x h = tl h @ [x]"
  by (cases h) (simp_all add: deque_append_def Let_def)

text \<open>
  Claim C8, as amended. In v1 and v2 usage accounting only grows: across
  \<^verbatim>\<open>assign_all_tables\<close>, also when an exception ends it, no table is lost, no usage
  count of any team on any table goes down and \<^verbatim>\<open>last_used_by\<close> only gets entries at
  its end. In a v3 run, on the teams and matches as the constructors leave them, with
  shuffles that rearrange the matches, the teams are at the end what they were at the
  start: every history stays \<^verbatim>\<open>None\<close> and nothing is appended to it or taken from
  it; \<^verbatim>\<open>Match.remove_table\<close> raises \<^verbatim>\<open>AttributeError\<close> on such teams and leaves them
  as they are. In the first script, when the weeks of a schedule are got through, no
  usage count has gone down, and when \<^verbatim>\<open>assign_tables\<close> returns every team's usage
  counts count all the tables that were assigned to the team, while its history holds
  the last 20 of them only: an append to a history of fewer than 20 entries adds the
  entry at the end, an append to a history of 20 entries also drops the oldest one.
\<close>

theorem usage_accounting_grows:
  "(assign_all_tables order bye ws ts = (e, ws', ts') \<longrightarrow> tables_grow ts ts')
 \<and> (assign_all_tables_v2 order wsb ts = (e, wsb', ts') \<longrightarrow> tables_grow ts ts')
 \<and> ((\<forall>w\<in>set wsc. built_v3 teams (matches_v3 w)) \<and> rearranged rnd 0 wsc
      \<and> assign_all_tables_v3 rnd n wsc teams = (ec, warnings, wsc', teams') \<longrightarrow>
      teams' = teams)
 \<and> (built_v3 teams ms \<and> m \<in> set ms \<longrightarrow>
      remove_table m teams = (Some AttributeError, m\<lparr>table_assigned := None\<rparr>, teams))
 \<and> (assign_schedule l sched = Inr (l', as) \<longrightarrow> usage_kept l l')
 \<and> (assign_tables_v0 sched = Inr (l', as) \<longrightarrow> (\<forall>tm. \<exists>xs. credited l' tm xs))
 \<and> (length h < 20 \<longrightarrow> deque_append x h = h @ [x])
 \<and> (length h = 20 \<longrightarrow> deque_append x h = tl h @ [x])"
proof (intro conjI impI)
  assume "assign_all_tables order bye ws ts = (e, ws', ts')"
  then show "tables_grow ts ts'"
    by (auto simp: assign_all_tables_def dest: assign_weeks_grows)
next
  assume "assign_all_tables_v2 order wsb ts = (e, wsb', ts')"
  then show "tables_grow ts ts'"
    by (auto simp: assign_all_tables_v2_def dest: assign_weeks_v2_grows)
next
  assume a: "(\<forall>w\<in>set wsc. built_v3 teams (matches_v3 w)) \<and> rearranged rnd 0 wsc
      \<and> assign_all_tables_v3 rnd n wsc teams = (ec, warnings, wsc', teams')"
  then have "\<forall>w\<in>set wsc. built_v3 teams (matches_v3 w)" "rearranged rnd 0 wsc"
    "assign_weeks_v3 rnd (length wsc) n 0 wsc teams = (ec, warnings, wsc', teams')"
    by (simp_all add: assign_all_tables_v3_def)
  from built_run [OF this] show "teams' = teams" by simp
next
  assume "built_v3 teams ms \<and> m \<in> set ms"
  then have "built_v3 teams ms" "m \<in> set ms" by simp_all
  then show "remove_table m teams = (Some AttributeError, m\<lparr>table_assigned := None\<rparr>, teams)"
    by (rule built_remove_table)
next
  assume "assign_schedule l sched = Inr (l', as)"
  from assign_schedule_invariant [OF this] show "usage_kept l l'" by simp
next
  assume "assign_tables_v0 sched = Inr (l', as)"
  then show "\<forall>tm. \<exists>xs. credited l' tm xs" by (rule assign_tables_v0_credited)
next
  assume "length h < 20"
  then show "deque_append x h = h @ [x]" by (rule deque_append_short)
next
  assume "length h = 20"
  then show "deque_append x h = tl h @ [x]" by (rule deque_append_full)
qed

theorem usage_accounting_grows_witness:
  "fst (assign_all_tables_v2 (\<lambda>i. [0, 1])
          [Week_v2_init 1 ''1/7'' [(1, 2), (3, 4)] None 4, Week_v2_init 2 ''1/14'' [(1, 3), (2, 4)] None 4]
          [Table_init ''A'', Table_init ''B'']) = None
   \<and> map last_used_by (snd (snd (assign_all_tables_v2 (\<lambda>i. [0, 1])
          [Week_v2_init 1 ''1/7'' [(1, 2), (3, 4)] None 4, Week_v2_init 2 ''1/14'' [(1, 3), (2, 4)] None 4]
          [Table_init ''A'', Table_init ''B''])))
        = [[1, 2, 1, 3], [3, 4, 2, 4]]
   \<and> tables_grow [Table_init ''A'', Table_init ''B'']
        (snd (snd (assign_all_tables_v2 (\<lambda>i. [0, 1])
          [Week_v2_init 1 ''1/7'' [(1, 2), (3, 4)] None 4, Week_v2_init 2 ''1/14'' [(1, 3), (2, 4)] None 4]
          [Table_init ''A'', Table_init ''B''])))
   \<and> fst (assign_all_tables (\<lambda>i. [0, 1]) None [Week_init 1 ''1/7'' [(1, 2), (3, 4)] None 4 2]
          [Table_init ''A'', Table_init ''B'']) = Some AttributeError
   \<and> tables_grow [Table_init ''A'', Table_init ''B'']
        (snd (snd (assign_all_tables (\<lambda>i. [0, 1]) None [Week_init 1 ''1/7'' [(1, 2), (3, 4)] None 4 2]
          [Table_init ''A'', Table_init ''B''])))
   \<and> fst (assign_all_tables_v3 (\<lambda>i. ([0], [Match_v3_init 0 1])) 1
          [Week_v3_init ''1'' ''1/7'' [Match_v3_init 0 1] None]
          [Team_init 1 ''a'', Team_init 2 ''b'']) = Some AttributeError
   \<and> snd (snd (snd (assign_all_tables_v3 (\<lambda>i. ([0], [Match_v3_init 0 1])) 1
          [Week_v3_init ''1'' ''1/7'' [Match_v3_init 0 1] None]
          [Team_init 1 ''a'', Team_init 2 ''b''])))
        = [Team_init 1 ''a'', Team_init 2 ''b'']
   \<and> remove_table (Match_v3_init 0 1) [Team_init 1 ''a'', Team_init 2 ''b'']
        = (Some AttributeError, (Match_v3_init 0 1)\<lparr>table_assigned := None\<rparr>,
           [Team_init 1 ''a'', Team_init 2 ''b''])
   \<and> (\<exists>l as. assign_tables_v0
                 (map (\<lambda>i. [i, ''Mon'', ''1-2'']) [''1'', ''2'', ''3'', ''4'', ''5'', ''6''])
               = Inr (l, as)
          \<and> usage_kept ledger_init l
          \<and> (\<exists>xs. credited l ''1'' xs))
   \<and> deque_append ''3-4'' [''1-2''] = [''1-2''] @ [''3-4'']
   \<and> deque_append ''3-4'' (replicate 20 ''1-2'') = tl (replicate 20 ''1-2'') @ [''3-4'']"
proof -
  let ?ts = "[Table_init ''A'', Table_init ''B'']"
  let ?wsb = "[Week_v2_init 1 ''1/7'' [(1, 2), (3, 4)] None 4, Week_v2_init 2 ''1/14'' [(1, 3), (2, 4)] None 4]"
  let ?ws = "[Week_init 1 ''1/7'' [(1, 2), (3, 4)] None 4 2]"
  let ?teams = "[Team_init 1 ''a'', Team_init 2 ''b'']"
  let ?wsc = "[Week_v3_init ''1'' ''1/7'' [Match_v3_init 0 1] None]"
  let ?rnd = "\<lambda>i::nat. ([0::nat], [Match_v3_init 0 1])"
  let ?sched = "map (\<lambda>i. [i, ''Mon'', ''1-2'']) [''1'', ''2'', ''3'', ''4'', ''5'', ''6'']"
  let ?A = "assign_all_tables (\<lambda>i. [0, 1]) None ?ws ?ts"
  let ?B = "assign_all_tables_v2 (\<lambda>i. [0, 1]) ?wsb ?ts"
  let ?C = "assign_all_tables_v3 ?rnd 1 ?wsc ?teams"
  have b1: "fst ?B = None" by code_simp
  have b2: "map last_used_by (snd (snd ?B)) = [[1, 2, 1, 3], [3, 4, 2, 4]]" by code_simp
  have a1: "fst ?A = Some AttributeError" by code_simp
  have c1: "fst ?C = Some AttributeError" by code_simp
  have hb: "built_v3 ?teams [Match_v3_init 0 1]"
    by (simp add: built_v3_def Team_init_def Match_v3_init_def)
  then have hc: "\<forall>w\<in>set ?wsc. built_v3 ?teams (matches_v3 w)"
    by (simp add: Week_v3_init_def)
  have hr: "rearranged ?rnd 0 ?wsc"
    by (simp add: rearranged_def shuffle_of_def Week_v3_init_def)
  have C: "?C = (fst ?C, fst (snd ?C), fst (snd (snd ?C)), snd (snd (snd ?C)))" by simp
  have "tables_grow ?ts (snd (snd ?A))"
    using usage_accounting_grows [where order = "\<lambda>i. [0, 1]" and bye = None and ws = ?ws
        and ts = ?ts and e = "fst ?A" and ws' = "fst (snd ?A)" and ts' = "snd (snd ?A)"]
    by simp
  moreover have "tables_grow ?ts (snd (snd ?B))"
    using usage_accounting_grows [where order = "\<lambda>i. [0, 1]" and wsb = ?wsb
        and ts = ?ts and e = "fst ?B" and wsb' = "fst (snd ?B)" and ts' = "snd (snd ?B)"]
    by simp
  moreover note c2 = mp [OF usage_accounting_grows [where wsc = ?wsc and teams = ?teams
        and rnd = ?rnd and n = 1 and ec = "fst ?C" and warnings = "fst (snd ?C)"
        and wsc' = "fst (snd (snd ?C))" and teams' = "snd (snd (snd ?C))",
        THEN conjunct2, THEN conjunct2, THEN conjunct1] conjI [OF hc conjI [OF hr C]]]
  moreover have c3: "remove_table (Match_v3_init 0 1) ?teams
        = (Some AttributeError, (Match_v3_init 0 1)\<lparr>table_assigned := None\<rparr>, ?teams)"
    using usage_accounting_grows [where teams = ?teams and ms = "[Match_v3_init 0 1]"
        and m = "Match_v3_init 0 1"] hb by simp
  moreover have c4: "\<exists>l as. assign_tables_v0 ?sched = Inr (l, as)
          \<and> usage_kept ledger_init l \<and> (\<exists>xs. credited l ''1'' xs)"
  proof -
    have "map_sum id (\<lambda>p. ()) (assign_tables_v0 ?sched) = Inr ()" by code_simp
    then obtain l as where r: "assign_tables_v0 ?sched = Inr (l, as)"
      by (cases "assign_tables_v0 ?sched") auto
    then have r': "assign_schedule ledger_init ?sched = Inr (l, as)"
      by (simp add: assign_tables_v0_def)
    note t = usage_accounting_grows [where l = ledger_init and sched = ?sched and l' = l and as = as]
    from mp [OF t [THEN conjunct2, THEN conjunct2, THEN conjunct2, THEN conjunct2, THEN conjunct1] r']
    have u: "usage_kept ledger_init l" .
    from mp [OF t [THEN conjunct2, THEN conjunct2, THEN conjunct2, THEN conjunct2, THEN conjunct2,
          THEN conjunct1] r]
    have "\<exists>xs. credited l ''1'' xs" by (rule spec)
    with r u show ?thesis by blast
  qed
  moreover have c5: "deque_append ''3-4'' [''1-2''] = [''1-2''] @ [''3-4'']"
    using usage_accounting_grows [where h = "[''1-2'']" and x = "''3-4''"] by simp
  moreover have c6: "deque_append ''3-4'' (replicate 20 ''1-2'') = tl (replicate 20 ''1-2'') @ [''3-4'']"
    using usage_accounting_grows [where h = "replicate 20 ''1-2''" and x = "''3-4''"]
    by simp
  ultimately show ?thesis using b1 b2 a1 c1 by (intro conjI)
qed

text \<open>The claim as it stands fails. In the first script a history is a
  \<^verbatim>\<open>deque(maxlen=20)\<close>. With the one match \<^verbatim>\<open>1-2\<close> every week, team 1 is given each of
  the four tables once a week: after five weeks its history has the 20 entries that
  were appended, after six weeks 24 entries were appended (the usage counts are 6 for
  every table) and the history still has 20 entries, so four of the appended entries
  were removed.\<close>

theorem history_entries_removed:
  "map_sum id (\<lambda>p. (length (table_history (fst p) ''1''),
                     map (table_usage_count (fst p) ''1'') table_pairs))
        (assign_tables_v0 (map (\<lambda>i. [i, ''Mon'', ''1-2'']) [''1'', ''2'', ''3'', ''4'', ''5'']))
       = Inr (20, [5, 5, 5, 5])
   \<and> map_sum id (\<lambda>p. (length (table_history (fst p) ''1''),
                       map (table_usage_count (fst p) ''1'') table_pairs))
        (assign_tables_v0 (map (\<lambda>i. [i, ''Mon'', ''1-2'']) [''1'', ''2'', ''3'', ''4'', ''5'', ''6'']))
       = Inr (20, [6, 6, 6, 6])
   \<and> map_sum id (\<lambda>p. (length (table_history (fst p) ''1''),
                       count_list (table_history (fst p) ''1'') ''1-2'',
                       table_usage_count (fst p) ''1'' ''1-2''))
        (assign_tables_v0 (map (\<lambda>i. [i, ''Mon'', ''1-2'']) [''1'', ''2'', ''3'', ''4'', ''5'', ''6'']))
       = Inr (20, 5, 6)"
proof -
  have a: "map_sum id (\<lambda>p. (length (table_history (fst p) ''1''),
                     map (table_usage_count (fst p) ''1'') table_pairs))
        (assign_tables_v0 (map (\<lambda>i. [i, ''Mon'', ''1-2'']) [''1'', ''2'', ''3'', ''4'', ''5'']))
       = Inr (20, [5, 5, 5, 5])"
    by code_simp
  have b: "map_sum id (\<lambda>p. (length (table_history (fst p) ''1''),
                       map (table_usage_count (fst p) ''1'') table_pairs))
        (assign_tables_v0 (map (\<lambda>i. [i, ''Mon'', ''1-2'']) [''1'', ''2'', ''3'', ''4'', ''5'', ''6'']))
       = Inr (20, [6, 6, 6, 6])"
    by code_simp
  have d: "map_sum id (\<lambda>p. (length (table_history (fst p) ''1''),
                       count_list (table_history (fst p) ''1'') ''1-2'',
                       table_usage_count (fst p) ''1'' ''1-2''))
        (assign_tables_v0 (map (\<lambda>i. [i, ''Mon'', ''1-2'']) [''1'', ''2'', ''3'', ''4'', ''5'', ''6'']))
       = Inr (20, 5, 6)"
    by code_simp
  from a b d show ?thesis by (intro conjI)
qed


section \<open>A week that cannot be assigned\<close>

lemma assign_weeks_v2_abort:
  "assign_weeks_v2 order i ws ts = (Some e, ws', ts') \<Longrightarrow>
     \<exists>pre w post pre' w' ts1.
        ws = pre @ w # post \<and> ws' = pre' @ w' # post
        \<and> assign_weeks_v2 order i pre ts = (None, pre', ts1)
        \<and> assign_tables_v2 w ts1 (order (i + length pre)) = (Some e, w', ts')"
proof (induction ws arbitrary: i ts ws' ts')
  case Nil
  then show ?case by simp
next
  case (Cons w ws)
  obtain e2 w2 ts2 where a: "assign_tables_v2 w ts (order i) = (e2, w2, ts2)"
    by (metis prod_cases3)
  show ?case
  proof (cases e2)
    case (Some err)
    with Cons.prems a have "err = e" "ws' = w2 # ws" "ts' = ts2" by simp_all
    with a Some have "w # ws = [] @ w # ws \<and> ws' = [] @ w2 # ws
        \<and> assign_weeks_v2 order i [] ts = (None, [], ts)
        \<and> assign_tables_v2 w ts (order (i + length ([] :: Week_v2 list))) = (Some e, w2, ts')"
      by simp
    then show ?thesis by blast
  next
    case None
    obtain e3 ws3 ts3 where r: "assign_weeks_v2 order (Suc i) ws ts2 = (e3, ws3, ts3)"
      by (metis prod_cases3)
    with Cons.prems a None have e3: "e3 = Some e" and ws': "ws' = w2 # ws3" and ts': "ts' = ts3"
      by simp_all
    from Cons.IH [OF r [unfolded e3]] obtain pre x post pre' x' ts1 where
      ws: "ws = pre @ x # post" and ws3: "ws3 = pre' @ x' # post"
      and p: "assign_weeks_v2 order (Suc i) pre ts2 = (None, pre', ts1)"
      and f: "assign_tables_v2 x ts1 (order (Suc i + length pre)) = (Some e, x', ts3)"
      by blast
    have "w # ws = (w # pre) @ x # post \<and> ws' = (w2 # pre') @ x' # post
        \<and> assign_weeks_v2 order i (w # pre) ts = (None, w2 # pre', ts1)
        \<and> assign_tables_v2 x ts1 (order (i + length (w # pre))) = (Some e, x', ts')"
      using ws ws3 ws' ts' p f a None by simp
    then show ?thesis by blast
  qed
qed

lemma assign_weeks_abort:
  "assign_weeks order i bye ws ts = (Some e, ws', ts') \<Longrightarrow>
     \<exists>pre w post pre' w' ts1.
        ws = pre @ w # post \<and> ws' = pre' @ w' # post
        \<and> assign_weeks order i bye pre ts = (None, pre', ts1)
        \<and> (calculate_usage_stats w ts1 bye = (Some e, w') \<and> ts' = ts1
           \<or> (\<exists>w1. calculate_usage_stats w ts1 bye = (None, w1)
                 \<and> assign_tables w1 ts1 (order (i + length pre)) = (Some e, w', ts')))"
proof (induction ws arbitrary: i ts ws' ts')
  case Nil
  then show ?case by simp
next
  case (Cons w ws)
  obtain e1 w1 where c: "calculate_usage_stats w ts bye = (e1, w1)"
    by (cases "calculate_usage_stats w ts bye")
  show ?case
  proof (cases e1)
    case (Some err)
    with Cons.prems c have "err = e" "ws' = w1 # ws" "ts' = ts" by simp_all
    with c Some have "w # ws = [] @ w # ws \<and> ws' = [] @ w1 # ws
        \<and> assign_weeks order i bye [] ts = (None, [], ts)
        \<and> (calculate_usage_stats w ts bye = (Some e, w1) \<and> ts' = ts
           \<or> (\<exists>w1'. calculate_usage_stats w ts bye = (None, w1')
                 \<and> assign_tables w1' ts (order (i + length ([] :: Week list))) = (Some e, w1, ts')))"
      by simp
    then show ?thesis by blast
  next
    case None
    obtain e2 w2 ts2 where a: "assign_tables w1 ts (order i) = (e2, w2, ts2)"
      by (metis prod_cases3)
    show ?thesis
    proof (cases e2)
      case (Some err)
      with Cons.prems c None a have "err = e" "ws' = w2 # ws" "ts' = ts2" by simp_all
      with c None a Some have "w # ws = [] @ w # ws \<and> ws' = [] @ w2 # ws
        \<and> assign_weeks order i bye [] ts = (None, [], ts)
        \<and> (calculate_usage_stats w ts bye = (Some e, w2) \<and> ts' = ts
           \<or> (\<exists>w1'. calculate_usage_stats w ts bye = (None, w1')
                 \<and> assign_tables w1' ts (order (i + length ([] :: Week list))) = (Some e, w2, ts')))"
        by simp
      then show ?thesis by blast
    next
      case n2: None
      obtain e3 ws3 ts3 where r: "assign_weeks order (Suc i) bye ws ts2 = (e3, ws3, ts3)"
        by (metis prod_cases3)
      with Cons.prems c None a n2 have e3: "e3 = Some e" and ws': "ws' = w2 # ws3" and ts': "ts' = ts3"
        by simp_all
      from Cons.IH [OF r [unfolded e3]] obtain pre x post pre' x' ts1 where
        ws: "ws = pre @ x # post" and ws3: "ws3 = pre' @ x' # post"
        and p: "assign_weeks order (Suc i) bye pre ts2 = (None, pre', ts1)"
        and f: "calculate_usage_stats x ts1 bye = (Some e, x') \<and> ts3 = ts1
           \<or> (\<exists>w1. calculate_usage_stats x ts1 bye = (None, w1)
                 \<and> assign_tables w1 ts1 (order (Suc i + length pre)) = (Some e, x', ts3))"
        by blast
      have "w # ws = (w # pre) @ x # post \<and> ws' = (w2 # pre') @ x' # post
        \<and> assign_weeks order i bye (w # pre) ts = (None, w2 # pre', ts1)
        \<and> (calculate_usage_stats x ts1 bye = (Some e, x') \<and> ts' = ts1
           \<or> (\<exists>w1. calculate_usage_stats x ts1 bye = (None, w1)
                 \<and> assign_tables w1 ts1 (order (i + length (w # pre))) = (Some e, x', ts')))"
        using ws ws3 ws' ts' p f c None a n2 by simp
      then show ?thesis by blast
    qed
  qed
qed


lemma assign_tables_v3_warns:
  assumes "week_id_v3 w \<noteq> ''1''" and "0 < n" and "n < length (matches_v3 w)"
    and "\<forall>m\<in>set (matches_v3 w). table_assigned m = None"
  shows "assign_tables_v3 w n teams st sm = (None, True, w, teams)"
proof -
  have p: "permutations [0..<n] (length (matches_v3 w)) = []"
    using assms(3) by (intro permutations_too_long) simp
  have m: "max_usage_per_table (weeks_total w) (length [0..<n])
             = Inr \<lceil>real (weeks_total w) / real n\<rceil>"
    using assms(2) by (simp add: max_usage_per_table_def)
  have "assign_tables_to_matches w (matches_v3 w) [0..<n] teams = (Inr False, matches_v3 w, teams)"
    unfolding assign_tables_to_matches_def m p
    by (simp add: reset_assignments_unassigned [OF assms(4)])
  with assms(1) show ?thesis by (simp add: assign_tables_v3_def)
qed

lemma assign_weeks_v3_warned:
  assumes "week_id_v3 w \<noteq> ''1''" and "0 < n" and "n < length (matches_v3 w)"
    and "\<forall>m\<in>set (matches_v3 w). table_assigned m = None"
  shows "assign_weeks_v3 rnd wt n i (w # ws) teams
           = (case assign_weeks_v3 rnd wt n (Suc i) ws teams of
                (e, warnings, ws', teams') \<Rightarrow>
                  (e, i # warnings, set_weeks_total wt w # ws', teams'))"
proof -
  let ?w = "set_weeks_total wt w"
  from assms have "week_id_v3 ?w \<noteq> ''1''" "n < length (matches_v3 ?w)"
    "\<forall>m\<in>set (matches_v3 ?w). table_assigned m = None"
    by (simp_all add: set_weeks_total_def)
  from assign_tables_v3_warns [OF this(1) assms(2) this(2,3)]
  have a: "assign_tables_v3 ?w n teams (fst (rnd i)) (snd (rnd i)) = (None, True, ?w, teams)" .
  show ?thesis
    by (simp only: assign_weeks_v3.simps a prod.case option.case if_True append_Cons append_Nil)
qed

lemma assign_tables_v3_no_table:
  assumes "week_id_v3 w \<noteq> ''1''"
  shows "assign_tables_v3 w 0 teams st sm = (Some ZeroDivisionError, False, w, teams)"
  using assms
  by (simp add: assign_tables_v3_def assign_tables_to_matches_def max_usage_per_table_def)

lemma assign_loop_v2_too_few:
  "length (available_tables_v2 w) < length (filter (\<lambda>m. \<not> has_bye m (bye_team_id_v2 w)) ms) \<Longrightarrow>
     fst (assign_loop_v2 w ts ms) \<noteq> None"
proof (induction ms arbitrary: w ts)
  case Nil
  then show ?case by simp
next
  case (Cons m ms)
  show ?case
  proof (cases "has_bye m (bye_team_id_v2 w)")
    case True
    with Cons.prems have "length (available_tables_v2 w)
        < length (filter (\<lambda>m. \<not> has_bye m (bye_team_id_v2 w)) ms)" by simp
    from Cons.IH [OF this, of ts] True show ?thesis
      by (cases "assign_loop_v2 w ts ms") auto
  next
    case False
    show ?thesis
    proof (cases "find_best_table_v2 w ts m")
      case (Inl err)
      with False show ?thesis by simp
    next
      case (Inr res)
      show ?thesis
      proof (cases res)
        case None
        with Inr False show ?thesis by simp
      next
        case (Some r)
        with Inr have rin: "r \<in> set (available_tables_v2 w)"
          by (intro find_best_table_v2_available) simp
        let ?w1 = "w\<lparr>available_tables_v2 := remove1 r (available_tables_v2 w)\<rparr>"
        have pos: "0 < length (available_tables_v2 w)"
          using rin by (rule length_pos_if_in_set)
        have len1: "length (remove1 r (available_tables_v2 w)) = length (available_tables_v2 w) - 1"
          using rin by (simp add: length_remove1)
        from Cons.prems False
        have "length (available_tables_v2 w)
                < Suc (length (filter (\<lambda>m. \<not> has_bye m (bye_team_id_v2 w)) ms))"
          by simp
        with pos len1
        have "length (remove1 r (available_tables_v2 w))
                < length (filter (\<lambda>m. \<not> has_bye m (bye_team_id_v2 w)) ms)"
          by linarith
        then have lt: "length (available_tables_v2 ?w1)
            < length (filter (\<lambda>m. \<not> has_bye m (bye_team_id_v2 ?w1)) ms)"
          by simp
        obtain m1 ts1 where at: "assign_table m r ts = (m1, ts1)"
          by (cases "assign_table m r ts")
        from Cons.IH [OF lt, of ts1] False Inr Some at show ?thesis
          by (cases "assign_loop_v2 ?w1 ts1 ms") auto
      qed
    qed
  qed
qed

lemma assign_loop_too_few:
  "length (available_tables w) < length (filter (\<lambda>m. \<not> has_bye m (bye_team_id w)) ms) \<Longrightarrow>
     fst (assign_loop w ts ms) \<noteq> None"
proof (induction ms arbitrary: w ts)
  case Nil
  then show ?case by simp
next
  case (Cons m ms)
  show ?case
  proof (cases "has_bye m (bye_team_id w)")
    case True
    with Cons.prems have "length (available_tables w)
        < length (filter (\<lambda>m. \<not> has_bye m (bye_team_id w)) ms)" by simp
    from Cons.IH [OF this, of ts] True show ?thesis
      by (cases "assign_loop w ts ms") auto
  next
    case False
    show ?thesis
    proof (cases "find_best_table w ts m (bye_team_id w)")
      case (Inl err)
      with False show ?thesis by simp
    next
      case (Inr res)
      show ?thesis
      proof (cases res)
        case None
        with Inr False show ?thesis by simp
      next
        case (Some r)
        with Inr have rin: "r \<in> set (available_tables w)"
          by (intro find_best_table_available) simp
        let ?w1 = "w\<lparr>available_tables := remove1 r (available_tables w)\<rparr>"
        have pos: "0 < length (available_tables w)"
          using rin by (rule length_pos_if_in_set)
        have len1: "length (remove1 r (available_tables w)) = length (available_tables w) - 1"
          using rin by (simp add: length_remove1)
        from Cons.prems False
        have "length (available_tables w)
                < Suc (length (filter (\<lambda>m. \<not> has_bye m (bye_team_id w)) ms))"
          by simp
        with pos len1
        have "length (remove1 r (available_tables w))
                < length (filter (\<lambda>m. \<not> has_bye m (bye_team_id w)) ms)"
          by linarith
        then have lt: "length (available_tables ?w1)
            < length (filter (\<lambda>m. \<not> has_bye m (bye_team_id ?w1)) ms)"
          by simp
        obtain m1 ts1 where at: "assign_table m r ts = (m1, ts1)"
          by (cases "assign_table m r ts")
        from Cons.IH [OF lt, of ts1] False Inr Some at show ?thesis
          by (cases "assign_loop ?w1 ts1 ms") auto
      qed
    qed
  qed
qed

lemma assign_tables_too_few:
  assumes "length order < length (filter (\<lambda>m. \<not> has_bye m (bye_team_id w)) (matches w))"
  shows "fst (assign_tables w ts order) \<noteq> None"
proof -
  let ?w1 = "w\<lparr>available_tables := order, total_tables := Some (length ts)\<rparr>"
  from assms have "length (available_tables ?w1)
      < length (filter (\<lambda>m. \<not> has_bye m (bye_team_id ?w1)) (matches ?w1))" by simp
  from assign_loop_too_few [OF this, of ts] show ?thesis
    by (cases "assign_loop ?w1 ts (matches w)") (auto simp: assign_tables_def Let_def)
qed

lemma assign_tables_v2_too_few:
  assumes "length order < length (filter (\<lambda>m. \<not> has_bye m (bye_team_id_v2 w)) (matches_v2 w))"
  shows "fst (assign_tables_v2 w ts order) \<noteq> None"
proof -
  let ?w1 = "w\<lparr>available_tables_v2 := order\<rparr>"
  from assms have "length (available_tables_v2 ?w1)
      < length (filter (\<lambda>m. \<not> has_bye m (bye_team_id_v2 ?w1)) (matches_v2 ?w1))" by simp
  from assign_loop_v2_too_few [OF this, of ts] show ?thesis
    by (cases "assign_loop_v2 ?w1 ts (matches_v2 w)") (auto simp: assign_tables_v2_def Let_def)
qed

text \<open>
  Claim C3, as amended. In v1 and v2 a week with more matches (without the bye team)
  than tables makes \<^verbatim>\<open>assign_tables\<close> raise, and an exception in a week ends
  \<^verbatim>\<open>assign_all_tables\<close> there: the weeks before it were assigned without an exception
  and keep their state, the weeks after it are untouched. In v3 a week after the first
  that has more matches than there are tables, with at least one table and with its
  matches unassigned as \<^verbatim>\<open>Match.__init__\<close> leaves them, only gets the printed warning:
  the week raises no exception, its matches and the teams stay as they are, and the
  loop of \<^verbatim>\<open>assign_all_tables\<close> goes on with the following weeks, whatever they are;
  what it returns is what it returns for the following weeks, with the warning for
  this week and the week itself put in front. With no table at all a week after the
  first raises \<^verbatim>\<open>ZeroDivisionError\<close>.
\<close>

theorem infeasible_week_aborts_or_warns:
  "(assign_all_tables order bye ws ts = (Some e, ws', ts') \<longrightarrow>
      (\<exists>pre w post pre' w' ts1.
         ws = pre @ w # post \<and> ws' = pre' @ w' # post
         \<and> assign_all_tables order bye pre ts = (None, pre', ts1)
         \<and> (calculate_usage_stats w ts1 bye = (Some e, w') \<and> ts' = ts1
            \<or> (\<exists>w1. calculate_usage_stats w ts1 bye = (None, w1)
                  \<and> assign_tables w1 ts1 (order (length pre)) = (Some e, w', ts')))))
 \<and> (assign_all_tables_v2 order wsb ts = (Some e, wsb', ts') \<longrightarrow>
      (\<exists>pre w post pre' w' ts1.
         wsb = pre @ w # post \<and> wsb' = pre' @ w' # post
         \<and> assign_all_tables_v2 order pre ts = (None, pre', ts1)
         \<and> assign_tables_v2 w ts1 (order (length pre)) = (Some e, w', ts')))
 \<and> (length av < length (filter (\<lambda>m. \<not> has_bye m (bye_team_id wa)) (matches wa)) \<longrightarrow>
      fst (assign_tables wa ts av) \<noteq> None)
 \<and> (length av < length (filter (\<lambda>m. \<not> has_bye m (bye_team_id_v2 wb)) (matches_v2 wb)) \<longrightarrow>
      fst (assign_tables_v2 wb ts av) \<noteq> None)
 \<and> (week_id_v3 wc \<noteq> ''1'' \<and> 0 < n \<and> n < length (matches_v3 wc)
      \<and> (\<forall>m\<in>set (matches_v3 wc). table_assigned m = None) \<longrightarrow>
      assign_tables_v3 wc n teams st sm = (None, True, wc, teams)
      \<and> assign_weeks_v3 rnd wt n i (wc # wsc) teams
          = (case assign_weeks_v3 rnd wt n (Suc i) wsc teams of
               (e, warnings, ws', teams') \<Rightarrow>
                 (e, i # warnings, set_weeks_total wt wc # ws', teams'))
      \<and> assign_all_tables_v3 rnd n (wc # wsc) teams
          = (case assign_weeks_v3 rnd (Suc (length wsc)) n 1 wsc teams of
               (e, warnings, ws', teams') \<Rightarrow>
                 (e, 0 # warnings, set_weeks_total (Suc (length wsc)) wc # ws', teams')))
 \<and> (week_id_v3 wc \<noteq> ''1'' \<longrightarrow>
      assign_tables_v3 wc 0 teams st sm = (Some ZeroDivisionError, False, wc, teams))"
proof (intro conjI impI)
  assume "assign_all_tables order bye ws ts = (Some e, ws', ts')"
  then have "assign_weeks order 0 bye ws ts = (Some e, ws', ts')"
    by (simp add: assign_all_tables_def)
  from assign_weeks_abort [OF this]
  show "\<exists>pre w post pre' w' ts1.
         ws = pre @ w # post \<and> ws' = pre' @ w' # post
         \<and> assign_all_tables order bye pre ts = (None, pre', ts1)
         \<and> (calculate_usage_stats w ts1 bye = (Some e, w') \<and> ts' = ts1
            \<or> (\<exists>w1. calculate_usage_stats w ts1 bye = (None, w1)
                  \<and> assign_tables w1 ts1 (order (length pre)) = (Some e, w', ts')))"
    by (simp add: assign_all_tables_def)
next
  assume "assign_all_tables_v2 order wsb ts = (Some e, wsb', ts')"
  then have "assign_weeks_v2 order 0 wsb ts = (Some e, wsb', ts')"
    by (simp add: assign_all_tables_v2_def)
  from assign_weeks_v2_abort [OF this]
  show "\<exists>pre w post pre' w' ts1.
         wsb = pre @ w # post \<and> wsb' = pre' @ w' # post
         \<and> assign_all_tables_v2 order pre ts = (None, pre', ts1)
         \<and> assign_tables_v2 w ts1 (order (length pre)) = (Some e, w', ts')"
    by (simp add: assign_all_tables_v2_def)
next
  assume "length av < length (filter (\<lambda>m. \<not> has_bye m (bye_team_id wa)) (matches wa))"
  then show "fst (assign_tables wa ts av) \<noteq> None" by (rule assign_tables_too_few)
next
  assume "length av < length (filter (\<lambda>m. \<not> has_bye m (bye_team_id_v2 wb)) (matches_v2 wb))"
  then show "fst (assign_tables_v2 wb ts av) \<noteq> None" by (rule assign_tables_v2_too_few)
next
  assume a: "week_id_v3 wc \<noteq> ''1'' \<and> 0 < n \<and> n < length (matches_v3 wc)
      \<and> (\<forall>m\<in>set (matches_v3 wc). table_assigned m = None)"
  then have h: "week_id_v3 wc \<noteq> ''1''" "0 < n" "n < length (matches_v3 wc)"
    "\<forall>m\<in>set (matches_v3 wc). table_assigned m = None" by simp_all
  from h show "assign_tables_v3 wc n teams st sm = (None, True, wc, teams)"
    by (rule assign_tables_v3_warns)
  from h show "assign_weeks_v3 rnd wt n i (wc # wsc) teams
          = (case assign_weeks_v3 rnd wt n (Suc i) wsc teams of
               (e, warnings, ws', teams') \<Rightarrow>
                 (e, i # warnings, set_weeks_total wt wc # ws', teams'))"
    by (rule assign_weeks_v3_warned)
  from assign_weeks_v3_warned [OF h, of rnd "Suc (length wsc)" 0 wsc teams]
  show "assign_all_tables_v3 rnd n (wc # wsc) teams
          = (case assign_weeks_v3 rnd (Suc (length wsc)) n 1 wsc teams of
               (e, warnings, ws', teams') \<Rightarrow>
                 (e, 0 # warnings, set_weeks_total (Suc (length wsc)) wc # ws', teams'))"
    by (simp add: assign_all_tables_v3_def)
next
  assume "week_id_v3 wc \<noteq> ''1''"
  then show "assign_tables_v3 wc 0 teams st sm = (Some ZeroDivisionError, False, wc, teams)"
    by (rule assign_tables_v3_no_table)
qed

theorem infeasible_week_aborts_or_warns_witness:
  "fst (assign_all_tables (\<lambda>i. [0, 1]) None [Week_init 1 ''1/7'' [(1, 2), (3, 4)] None 4 2]
          [Table_init ''A'', Table_init ''B'']) = Some AttributeError
   \<and> (\<exists>pre w post pre' w' ts1.
         [Week_init 1 ''1/7'' [(1, 2), (3, 4)] None 4 2] = pre @ w # post
         \<and> fst (snd (assign_all_tables (\<lambda>i. [0, 1]) None [Week_init 1 ''1/7'' [(1, 2), (3, 4)] None 4 2]
                 [Table_init ''A'', Table_init ''B''])) = pre' @ w' # post
         \<and> assign_all_tables (\<lambda>i. [0, 1]) None pre [Table_init ''A'', Table_init ''B''] = (None, pre', ts1))
   \<and> fst (assign_all_tables_v2 (\<lambda>i. [0, 1])
          [Week_v2_init 1 ''1/7'' [(1, 2), (3, 4)] None 6,
           Week_v2_init 2 ''1/14'' [(1, 3), (2, 5), (4, 6)] None 6,
           Week_v2_init 3 ''1/21'' [(5, 6), (1, 4)] None 6]
          [Table_init ''A'', Table_init ''B'']) = Some ValueError
   \<and> map (map assigned_table \<circ> matches_v2)
        (fst (snd (assign_all_tables_v2 (\<lambda>i. [0, 1])
          [Week_v2_init 1 ''1/7'' [(1, 2), (3, 4)] None 6,
           Week_v2_init 2 ''1/14'' [(1, 3), (2, 5), (4, 6)] None 6,
           Week_v2_init 3 ''1/21'' [(5, 6), (1, 4)] None 6]
          [Table_init ''A'', Table_init ''B''])))
       = [[Some 0, Some 1], [Some 0, Some 1, None], [None, None]]
   \<and> (\<exists>pre w post pre' w' ts1.
         [Week_v2_init 1 ''1/7'' [(1, 2), (3, 4)] None 6,
          Week_v2_init 2 ''1/14'' [(1, 3), (2, 5), (4, 6)] None 6,
          Week_v2_init 3 ''1/21'' [(5, 6), (1, 4)] None 6] = pre @ w # post
         \<and> fst (snd (assign_all_tables_v2 (\<lambda>i. [0, 1])
              [Week_v2_init 1 ''1/7'' [(1, 2), (3, 4)] None 6,
               Week_v2_init 2 ''1/14'' [(1, 3), (2, 5), (4, 6)] None 6,
               Week_v2_init 3 ''1/21'' [(5, 6), (1, 4)] None 6]
              [Table_init ''A'', Table_init ''B''])) = pre' @ w' # post
         \<and> assign_all_tables_v2 (\<lambda>i. [0, 1]) pre [Table_init ''A'', Table_init ''B''] = (None, pre', ts1))
   \<and> fst (assign_tables (Week_init 2 ''1/14'' [(1, 3), (2, 5), (4, 6)] None 6 4)
          [Table_init ''A'', Table_init ''B''] [0, 1]) \<noteq> None
   \<and> fst (assign_tables_v2 (Week_v2_init 2 ''1/14'' [(1, 3), (2, 5), (4, 6)] None 6)
          [Table_init ''A'', Table_init ''B''] [0, 1]) \<noteq> None
   \<and> assign_tables_v3 (Week_v3_init ''2'' ''1/14'' [Match_v3_init 0 1, Match_v3_init 2 3] None) 1
        [Team_init 1 ''a'', Team_init 2 ''b'', Team_init 3 ''c'', Team_init 4 ''d''] [0] []
       = (None, True, Week_v3_init ''2'' ''1/14'' [Match_v3_init 0 1, Match_v3_init 2 3] None,
          [Team_init 1 ''a'', Team_init 2 ''b'', Team_init 3 ''c'', Team_init 4 ''d''])
   \<and> assign_all_tables_v3 (\<lambda>i. ([0], [])) 1
        [Week_v3_init ''2'' ''1/14'' [Match_v3_init 0 1, Match_v3_init 2 3] None,
         Week_v3_init ''3'' ''1/21'' [Match_v3_init 0 2] None]
        [Team_init 1 ''a'', Team_init 2 ''b'', Team_init 3 ''c'', Team_init 4 ''d'']
       = (Some AttributeError, [0],
          [set_weeks_total 2 (Week_v3_init ''2'' ''1/14'' [Match_v3_init 0 1, Match_v3_init 2 3] None),
           set_weeks_total 2 (Week_v3_init ''3'' ''1/21'' [Match_v3_init 0 2] None)],
          [Team_init 1 ''a'', Team_init 2 ''b'', Team_init 3 ''c'', Team_init 4 ''d''])
   \<and> assign_tables_v3 (Week_v3_init ''2'' ''1/14'' [Match_v3_init 0 1, Match_v3_init 2 3] None) 0
        [Team_init 1 ''a'', Team_init 2 ''b'', Team_init 3 ''c'', Team_init 4 ''d''] [] []
       = (Some ZeroDivisionError, False,
          Week_v3_init ''2'' ''1/14'' [Match_v3_init 0 1, Match_v3_init 2 3] None,
          [Team_init 1 ''a'', Team_init 2 ''b'', Team_init 3 ''c'', Team_init 4 ''d''])"
proof -
  let ?ts = "[Table_init ''A'', Table_init ''B'']"
  let ?ws = "[Week_init 1 ''1/7'' [(1, 2), (3, 4)] None 4 2]"
  let ?wsb = "[Week_v2_init 1 ''1/7'' [(1, 2), (3, 4)] None 6,
           Week_v2_init 2 ''1/14'' [(1, 3), (2, 5), (4, 6)] None 6,
           Week_v2_init 3 ''1/21'' [(5, 6), (1, 4)] None 6]"
  let ?wa = "Week_init 2 ''1/14'' [(1, 3), (2, 5), (4, 6)] None 6 4"
  let ?wb = "Week_v2_init 2 ''1/14'' [(1, 3), (2, 5), (4, 6)] None 6"
  let ?wc = "Week_v3_init ''2'' ''1/14'' [Match_v3_init 0 1, Match_v3_init 2 3] None"
  let ?wd = "Week_v3_init ''3'' ''1/21'' [Match_v3_init 0 2] None"
  let ?teams = "[Team_init 1 ''a'', Team_init 2 ''b'', Team_init 3 ''c'', Team_init 4 ''d'']"
  let ?A = "assign_all_tables (\<lambda>i. [0, 1]) None ?ws ?ts"
  let ?B = "assign_all_tables_v2 (\<lambda>i. [0, 1]) ?wsb ?ts"
  have a1: "fst ?A = Some AttributeError" by code_simp
  have b1: "fst ?B = Some ValueError" by code_simp
  have b2: "map (map assigned_table \<circ> matches_v2) (fst (snd ?B))
              = [[Some 0, Some 1], [Some 0, Some 1, None], [None, None]]" by code_simp
  have ha: "length [0, 1 :: nat] < length (filter (\<lambda>m. \<not> has_bye m (bye_team_id ?wa)) (matches ?wa))"
    by (simp add: Week_init_def has_bye_def same_str_def)
  have hb: "length [0, 1 :: nat] < length (filter (\<lambda>m. \<not> has_bye m (bye_team_id_v2 ?wb)) (matches_v2 ?wb))"
    by (simp add: Week_v2_init_def has_bye_def same_str_def)
  have hc: "week_id_v3 ?wc \<noteq> ''1'' \<and> 0 < (1 :: nat) \<and> 1 < length (matches_v3 ?wc)
      \<and> (\<forall>m\<in>set (matches_v3 ?wc). table_assigned m = None)"
    by (simp add: Week_v3_init_def Match_v3_init_def)
  have hd: "week_id_v3 ?wc \<noteq> ''1''" by (simp add: Week_v3_init_def)
  have rest: "assign_weeks_v3 (\<lambda>i. ([0], [])) (Suc (length [?wd])) 1 1 [?wd] ?teams
                = (Some AttributeError, [], [set_weeks_total 2 ?wd], ?teams)"
    by code_simp
  have A: "?A = (Some AttributeError, fst (snd ?A), snd (snd ?A))"
    unfolding a1 [symmetric] by simp
  have B: "?B = (Some ValueError, fst (snd ?B), snd (snd ?B))"
    unfolding b1 [symmetric] by simp
  note t = infeasible_week_aborts_or_warns [where order = "\<lambda>i. [0, 1]" and bye = None and ws = ?ws
      and ts = ?ts and e = AttributeError and ws' = "fst (snd ?A)" and ts' = "snd (snd ?A)"
      and av = "[0, 1]" and wa = ?wa and wb = ?wb and n = 1 and wc = ?wc and wsc = "[?wd]"
      and rnd = "\<lambda>i. ([0], [])" and teams = ?teams and st = "[0]" and sm = "[]"]
  note z = infeasible_week_aborts_or_warns [where wc = ?wc and teams = ?teams
      and st = "[]" and sm = "[]"]
  note u = infeasible_week_aborts_or_warns [where order = "\<lambda>i. [0, 1]" and wsb = ?wsb
      and ts = ?ts and e = ValueError and wsb' = "fst (snd ?B)" and ts' = "snd (snd ?B)"]
  from mp [OF t [THEN conjunct1] A] obtain pre w post pre' w' ts1 where
    "?ws = pre @ w # post" "fst (snd ?A) = pre' @ w' # post"
    "assign_all_tables (\<lambda>i. [0, 1]) None pre ?ts = (None, pre', ts1)"
    by (elim exE conjE)
  then have c1: "\<exists>pre w post pre' w' ts1.
         ?ws = pre @ w # post \<and> fst (snd ?A) = pre' @ w' # post
         \<and> assign_all_tables (\<lambda>i. [0, 1]) None pre ?ts = (None, pre', ts1)"
    by (intro exI conjI)
  from mp [OF u [THEN conjunct2, THEN conjunct1] B] obtain pre w post pre' w' ts1 where
    "?wsb = pre @ w # post" "fst (snd ?B) = pre' @ w' # post"
    "assign_all_tables_v2 (\<lambda>i. [0, 1]) pre ?ts = (None, pre', ts1)"
    by (elim exE conjE)
  then have c2: "\<exists>pre w post pre' w' ts1.
         ?wsb = pre @ w # post \<and> fst (snd ?B) = pre' @ w' # post
         \<and> assign_all_tables_v2 (\<lambda>i. [0, 1]) pre ?ts = (None, pre', ts1)"
    by (intro exI conjI)
  note c3 = mp [OF t [THEN conjunct2, THEN conjunct2, THEN conjunct1] ha]
  note c4 = mp [OF t [THEN conjunct2, THEN conjunct2, THEN conjunct2, THEN conjunct1] hb]
  note c5 = mp [OF t [THEN conjunct2, THEN conjunct2, THEN conjunct2, THEN conjunct2, THEN conjunct1] hc]
  note c5a = c5 [THEN conjunct1]
  have c5b: "assign_all_tables_v3 (\<lambda>i. ([0], [])) 1 [?wc, ?wd] ?teams
       = (Some AttributeError, [0], [set_weeks_total 2 ?wc, set_weeks_total 2 ?wd], ?teams)"
    using c5 [THEN conjunct2, THEN conjunct2] unfolding rest by (simp add: numeral_2_eq_2)
  note c6 = mp [OF z [THEN conjunct2, THEN conjunct2, THEN conjunct2, THEN conjunct2, THEN conjunct2] hd]
  from a1 c1 b1 b2 c2 c3 c4 c5a c5b c6 show ?thesis by (intro conjI)
qed

text \<open>The claim as it stands fails. In v3, with one table and two weeks of two matches
  each, the first of them has no exclusive assignment; the run raises nothing, prints
  the warning for it, goes on to the next week and ends without a failure. In the first
  script a week of five matches (there are four tables) gets no assignment at all and
  no error, and the following week is assigned.\<close>

theorem infeasible_week_not_reported:
  "assign_all_tables_v3 (\<lambda>i. ([0], [])) 1
        [Week_v3_init ''2'' ''1/14'' [Match_v3_init 0 1, Match_v3_init 2 3] None,
         Week_v3_init ''3'' ''1/21'' [Match_v3_init 0 2, Match_v3_init 1 3] None]
        [Team_init 1 ''a'', Team_init 2 ''b'', Team_init 3 ''c'', Team_init 4 ''d'']
       = (None, [0, 1],
          [(Week_v3_init ''2'' ''1/14'' [Match_v3_init 0 1, Match_v3_init 2 3] None)\<lparr>weeks_total := 2\<rparr>,
           (Week_v3_init ''3'' ''1/21'' [Match_v3_init 0 2, Match_v3_init 1 3] None)\<lparr>weeks_total := 2\<rparr>],
          [Team_init 1 ''a'', Team_init 2 ''b'', Team_init 3 ''c'', Team_init 4 ''d''])
   \<and> map_sum id snd (assign_tables_v0
        [[''1'', ''1/7'', ''1-2'', ''3-4'', ''5-6'', ''7-8'', ''9-10''], [''2'', ''1/14'', ''1-2'']])
       = Inr (replicate 5 (''1'', ''1/7'', []) @ [(''2'', ''1/14'', [(''1-2'', ''7-8'')])])"
proof -
  have a: "assign_all_tables_v3 (\<lambda>i. ([0], [])) 1
        [Week_v3_init ''2'' ''1/14'' [Match_v3_init 0 1, Match_v3_init 2 3] None,
         Week_v3_init ''3'' ''1/21'' [Match_v3_init 0 2, Match_v3_init 1 3] None]
        [Team_init 1 ''a'', Team_init 2 ''b'', Team_init 3 ''c'', Team_init 4 ''d'']
       = (None, [0, 1],
          [(Week_v3_init ''2'' ''1/14'' [Match_v3_init 0 1, Match_v3_init 2 3] None)\<lparr>weeks_total := 2\<rparr>,
           (Week_v3_init ''3'' ''1/21'' [Match_v3_init 0 2, Match_v3_init 1 3] None)\<lparr>weeks_total := 2\<rparr>],
          [Team_init 1 ''a'', Team_init 2 ''b'', Team_init 3 ''c'', Team_init 4 ''d''])"
    by code_simp
  have b: "map_sum id snd (assign_tables_v0
        [[''1'', ''1/7'', ''1-2'', ''3-4'', ''5-6'', ''7-8'', ''9-10''], [''2'', ''1/14'', ''1-2'']])
       = Inr (replicate 5 (''1'', ''1/7'', []) @ [(''2'', ''1/14'', [(''1-2'', ''7-8'')])])"
    by code_simp
  from a b show ?thesis by (intro conjI)
qed


section \<open>Assignments of a week that fails\<close>

lemma assign_loop_v2_abort:
  "assign_loop_v2 w ts ms = (Some e, w', ts', ms') \<Longrightarrow>
     \<exists>done m rest done'.
        ms = done @ m # rest \<and> ms' = done' @ m # rest
        \<and> assign_loop_v2 w ts done = (None, w', ts', done')
        \<and> \<not> has_bye m (bye_team_id_v2 w)"
proof (induction ms arbitrary: w ts ms')
  case Nil
  then show ?case by simp
next
  case (Cons m ms)
  show ?case
  proof (cases "has_bye m (bye_team_id_v2 w)")
    case True
    with Cons.prems obtain ms1 where l: "assign_loop_v2 w ts ms = (Some e, w', ts', ms1)"
      and ms': "ms' = m # ms1"
      by (auto split: prod.splits)
    from Cons.IH [OF l] obtain dn x rest dn' where
      "ms = dn @ x # rest" "ms1 = dn' @ x # rest"
      "assign_loop_v2 w ts dn = (None, w', ts', dn')" "\<not> has_bye x (bye_team_id_v2 w)"
      by blast
    with True ms' have "m # ms = (m # dn) @ x # rest \<and> ms' = (m # dn') @ x # rest
        \<and> assign_loop_v2 w ts (m # dn) = (None, w', ts', m # dn')
        \<and> \<not> has_bye x (bye_team_id_v2 w)"
      by simp
    then show ?thesis by blast
  next
    case False
    have stop: ?thesis if "w' = w" "ts' = ts" "ms' = m # ms"
    proof -
      from that False have "m # ms = [] @ m # ms \<and> ms' = [] @ m # ms
        \<and> assign_loop_v2 w ts [] = (None, w', ts', [])
        \<and> \<not> has_bye m (bye_team_id_v2 w)"
        by simp
      then show ?thesis by blast
    qed
    show ?thesis
    proof (cases "find_best_table_v2 w ts m")
      case (Inl err)
      with False Cons.prems show ?thesis by (intro stop) simp_all
    next
      case (Inr res)
      show ?thesis
      proof (cases res)
        case None
        with Inr False Cons.prems show ?thesis by (intro stop) simp_all
      next
        case (Some r)
        obtain m1 ts1 where at: "assign_table m r ts = (m1, ts1)" by (cases "assign_table m r ts")
        let ?w1 = "w\<lparr>available_tables_v2 := remove1 r (available_tables_v2 w)\<rparr>"
        obtain e2 w2 ts2 ms2 where l: "assign_loop_v2 ?w1 ts1 ms = (e2, w2, ts2, ms2)"
          by (metis prod_cases4)
        with Cons.prems False Inr Some at
        have e2: "e2 = Some e" and w2: "w2 = w'" and ts2: "ts2 = ts'" and ms': "ms' = m1 # ms2"
          by simp_all
        from Cons.IH [OF l [unfolded e2 w2 ts2]] obtain dn x rest dn' where
          "ms = dn @ x # rest" "ms2 = dn' @ x # rest"
          "assign_loop_v2 ?w1 ts1 dn = (None, w', ts', dn')" "\<not> has_bye x (bye_team_id_v2 ?w1)"
          by blast
        with False Inr Some at ms' have "m # ms = (m # dn) @ x # rest \<and> ms' = (m1 # dn') @ x # rest
            \<and> assign_loop_v2 w ts (m # dn) = (None, w', ts', m1 # dn')
            \<and> \<not> has_bye x (bye_team_id_v2 w)"
          by simp
        then show ?thesis by blast
      qed
    qed
  qed
qed

lemma assign_loop_abort:
  "assign_loop w ts ms = (Some e, w', ts', ms') \<Longrightarrow>
     \<exists>done m rest done'.
        ms = done @ m # rest \<and> ms' = done' @ m # rest
        \<and> assign_loop w ts done = (None, w', ts', done')
        \<and> \<not> has_bye m (bye_team_id w)"
proof (induction ms arbitrary: w ts ms')
  case Nil
  then show ?case by simp
next
  case (Cons m ms)
  show ?case
  proof (cases "has_bye m (bye_team_id w)")
    case True
    with Cons.prems obtain ms1 where l: "assign_loop w ts ms = (Some e, w', ts', ms1)"
      and ms': "ms' = m # ms1"
      by (auto split: prod.splits)
    from Cons.IH [OF l] obtain dn x rest dn' where
      "ms = dn @ x # rest" "ms1 = dn' @ x # rest"
      "assign_loop w ts dn = (None, w', ts', dn')" "\<not> has_bye x (bye_team_id w)"
      by blast
    with True ms' have "m # ms = (m # dn) @ x # rest \<and> ms' = (m # dn') @ x # rest
        \<and> assign_loop w ts (m # dn) = (None, w', ts', m # dn')
        \<and> \<not> has_bye x (bye_team_id w)"
      by simp
    then show ?thesis by blast
  next
    case False
    have stop: ?thesis if "w' = w" "ts' = ts" "ms' = m # ms"
    proof -
      from that False have "m # ms = [] @ m # ms \<and> ms' = [] @ m # ms
        \<and> assign_loop w ts [] = (None, w', ts', [])
        \<and> \<not> has_bye m (bye_team_id w)"
        by simp
      then show ?thesis by blast
    qed
    show ?thesis
    proof (cases "find_best_table w ts m (bye_team_id w)")
      case (Inl err)
      with False Cons.prems show ?thesis by (intro stop) simp_all
    next
      case (Inr res)
      show ?thesis
      proof (cases res)
        case None
        with Inr False Cons.prems show ?thesis by (intro stop) simp_all
      next
        case (Some r)
        obtain m1 ts1 where at: "assign_table m r ts = (m1, ts1)" by (cases "assign_table m r ts")
        let ?w1 = "w\<lparr>available_tables := remove1 r (available_tables w)\<rparr>"
        obtain e2 w2 ts2 ms2 where l: "assign_loop ?w1 ts1 ms = (e2, w2, ts2, ms2)"
          by (metis prod_cases4)
        with Cons.prems False Inr Some at
        have e2: "e2 = Some e" and w2: "w2 = w'" and ts2: "ts2 = ts'" and ms': "ms' = m1 # ms2"
          by simp_all
        from Cons.IH [OF l [unfolded e2 w2 ts2]] obtain dn x rest dn' where
          "ms = dn @ x # rest" "ms2 = dn' @ x # rest"
          "assign_loop ?w1 ts1 dn = (None, w', ts', dn')" "\<not> has_bye x (bye_team_id ?w1)"
          by blast
        with False Inr Some at ms' have "m # ms = (m # dn) @ x # rest \<and> ms' = (m1 # dn') @ x # rest
            \<and> assign_loop w ts (m # dn) = (None, w', ts', m1 # dn')
            \<and> \<not> has_bye x (bye_team_id w)"
          by simp
        then show ?thesis by blast
      qed
    qed
  qed
qed


lemma assign_loop_done:
  "assign_loop w ts ms = (None, w', ts', ms') \<Longrightarrow> assigned_in_place (bye_team_id w) ms ms'"
proof (induction ms arbitrary: w ts w' ts' ms')
  case Nil
  then show ?case by (simp add: assigned_in_place_def)
next
  case (Cons m ms)
  show ?case
  proof (cases "has_bye m (bye_team_id w)")
    case True
    with Cons.prems obtain ms1 where l: "assign_loop w ts ms = (None, w', ts', ms1)"
      and ms': "ms' = m # ms1"
      by (auto split: prod.splits)
    from Cons.IH [OF l] True ms' show ?thesis by (simp add: assigned_in_place_def)
  next
    case False
    have "\<exists>r. find_best_table w ts m (bye_team_id w) = Inr (Some r)"
    proof (cases "find_best_table w ts m (bye_team_id w)")
      case (Inl err)
      with False Cons.prems show ?thesis by simp
    next
      case (Inr res)
      with False Cons.prems show ?thesis by (cases res) simp_all
    qed
    then obtain r where fb: "find_best_table w ts m (bye_team_id w) = Inr (Some r)" ..
    obtain m1 ts1 where at: "assign_table m r ts = (m1, ts1)" by (cases "assign_table m r ts")
    then have m1: "m1 = m\<lparr>assigned_table := Some r\<rparr>" by (simp add: assign_table_def)
    let ?w1 = "w\<lparr>available_tables := remove1 r (available_tables w)\<rparr>"
    obtain e2 w2 ts2 ms2 where l: "assign_loop ?w1 ts1 ms = (e2, w2, ts2, ms2)"
      by (metis prod_cases4)
    with Cons.prems False fb at
    have e2: "e2 = None" and ms': "ms' = m1 # ms2" by simp_all
    from Cons.IH [OF l [unfolded e2]] False show ?thesis
      by (simp add: assigned_in_place_def ms' m1)
  qed
qed

lemma assign_loop_v2_done:
  "assign_loop_v2 w ts ms = (None, w', ts', ms') \<Longrightarrow> assigned_in_place (bye_team_id_v2 w) ms ms'"
proof (induction ms arbitrary: w ts w' ts' ms')
  case Nil
  then show ?case by (simp add: assigned_in_place_def)
next
  case (Cons m ms)
  show ?case
  proof (cases "has_bye m (bye_team_id_v2 w)")
    case True
    with Cons.prems obtain ms1 where l: "assign_loop_v2 w ts ms = (None, w', ts', ms1)"
      and ms': "ms' = m # ms1"
      by (auto split: prod.splits)
    from Cons.IH [OF l] True ms' show ?thesis by (simp add: assigned_in_place_def)
  next
    case False
    have "\<exists>r. find_best_table_v2 w ts m = Inr (Some r)"
    proof (cases "find_best_table_v2 w ts m")
      case (Inl err)
      with False Cons.prems show ?thesis by simp
    next
      case (Inr res)
      with False Cons.prems show ?thesis by (cases res) simp_all
    qed
    then obtain r where fb: "find_best_table_v2 w ts m = Inr (Some r)" ..
    obtain m1 ts1 where at: "assign_table m r ts = (m1, ts1)" by (cases "assign_table m r ts")
    then have m1: "m1 = m\<lparr>assigned_table := Some r\<rparr>" by (simp add: assign_table_def)
    let ?w1 = "w\<lparr>available_tables_v2 := remove1 r (available_tables_v2 w)\<rparr>"
    obtain e2 w2 ts2 ms2 where l: "assign_loop_v2 ?w1 ts1 ms = (e2, w2, ts2, ms2)"
      by (metis prod_cases4)
    with Cons.prems False fb at
    have e2: "e2 = None" and ms': "ms' = m1 # ms2" by simp_all
    from Cons.IH [OF l [unfolded e2]] False show ?thesis
      by (simp add: assigned_in_place_def ms' m1)
  qed
qed

lemma assign_tables_outcome:
  "(assign_tables w ts order = (None, w', ts') \<longrightarrow>
      assigned_in_place (bye_team_id w) (matches w) (matches w'))
 \<and> (assign_tables w ts order = (Some e, w', ts') \<longrightarrow>
      (\<exists>done m rest done'.
         matches w = done @ m # rest \<and> matches w' = done' @ m # rest
         \<and> \<not> has_bye m (bye_team_id w) \<and> assigned_in_place (bye_team_id w) done done'))"
proof -
  let ?w1 = "w\<lparr>available_tables := order, total_tables := Some (length ts)\<rparr>"
  obtain e1 w2 ts2 ms2 where l: "assign_loop ?w1 ts (matches w) = (e1, w2, ts2, ms2)"
    by (metis prod_cases4)
  then have res: "assign_tables w ts order = (e1, w2\<lparr>matches := ms2\<rparr>, ts2)"
    by (simp add: assign_tables_def Let_def)
  show ?thesis
  proof (intro conjI impI)
    assume "assign_tables w ts order = (None, w', ts')"
    with res have "e1 = None" "w' = w2\<lparr>matches := ms2\<rparr>" by simp_all
    with assign_loop_done [of ?w1 ts "matches w" w2 ts2 ms2] l
    show "assigned_in_place (bye_team_id w) (matches w) (matches w')" by simp
  next
    assume "assign_tables w ts order = (Some e, w', ts')"
    with res have e1: "e1 = Some e" and w': "w' = w2\<lparr>matches := ms2\<rparr>" by simp_all
    from assign_loop_abort [OF l [unfolded e1]] obtain dn m rest dn' where
      "matches w = dn @ m # rest" "ms2 = dn' @ m # rest"
      "assign_loop ?w1 ts dn = (None, w2, ts2, dn')" "\<not> has_bye m (bye_team_id ?w1)"
      by blast
    with assign_loop_done [of ?w1 ts dn w2 ts2 dn'] w'
    have "matches w = dn @ m # rest \<and> matches w' = dn' @ m # rest
         \<and> \<not> has_bye m (bye_team_id w) \<and> assigned_in_place (bye_team_id w) dn dn'"
      by simp
    then show "\<exists>done m rest done'.
         matches w = done @ m # rest \<and> matches w' = done' @ m # rest
         \<and> \<not> has_bye m (bye_team_id w) \<and> assigned_in_place (bye_team_id w) done done'"
      by blast
  qed
qed

lemma assign_tables_v2_outcome:
  "(assign_tables_v2 w ts order = (None, w', ts') \<longrightarrow>
      assigned_in_place (bye_team_id_v2 w) (matches_v2 w) (matches_v2 w'))
 \<and> (assign_tables_v2 w ts order = (Some e, w', ts') \<longrightarrow>
      (\<exists>done m rest done'.
         matches_v2 w = done @ m # rest \<and> matches_v2 w' = done' @ m # rest
         \<and> \<not> has_bye m (bye_team_id_v2 w) \<and> assigned_in_place (bye_team_id_v2 w) done done'))"
proof -
  let ?w1 = "w\<lparr>available_tables_v2 := order\<rparr>"
  obtain e1 w2 ts2 ms2 where l: "assign_loop_v2 ?w1 ts (matches_v2 w) = (e1, w2, ts2, ms2)"
    by (metis prod_cases4)
  then have res: "assign_tables_v2 w ts order = (e1, w2\<lparr>matches_v2 := ms2\<rparr>, ts2)"
    by (simp add: assign_tables_v2_def Let_def)
  show ?thesis
  proof (intro conjI impI)
    assume "assign_tables_v2 w ts order = (None, w', ts')"
    with res have "e1 = None" "w' = w2\<lparr>matches_v2 := ms2\<rparr>" by simp_all
    with assign_loop_v2_done [of ?w1 ts "matches_v2 w" w2 ts2 ms2] l
    show "assigned_in_place (bye_team_id_v2 w) (matches_v2 w) (matches_v2 w')" by simp
  next
    assume "assign_tables_v2 w ts order = (Some e, w', ts')"
    with res have e1: "e1 = Some e" and w': "w' = w2\<lparr>matches_v2 := ms2\<rparr>" by simp_all
    from assign_loop_v2_abort [OF l [unfolded e1]] obtain dn m rest dn' where
      "matches_v2 w = dn @ m # rest" "ms2 = dn' @ m # rest"
      "assign_loop_v2 ?w1 ts dn = (None, w2, ts2, dn')" "\<not> has_bye m (bye_team_id_v2 ?w1)"
      by blast
    with assign_loop_v2_done [of ?w1 ts dn w2 ts2 dn'] w'
    have "matches_v2 w = dn @ m # rest \<and> matches_v2 w' = dn' @ m # rest
         \<and> \<not> has_bye m (bye_team_id_v2 w) \<and> assigned_in_place (bye_team_id_v2 w) dn dn'"
      by simp
    then show "\<exists>done m rest done'.
         matches_v2 w = done @ m # rest \<and> matches_v2 w' = done' @ m # rest
         \<and> \<not> has_bye m (bye_team_id_v2 w) \<and> assigned_in_place (bye_team_id_v2 w) done done'"
      by blast
  qed
qed


lemma assign_tables_v3_later_week:
  assumes "week_id_v3 w \<noteq> ''1''" and "\<forall>m\<in>set (matches_v3 w). table_assigned m = None"
    and "assign_tables_v3 w n teams st sm = (e, warned, w', teams')"
  shows "teams' = teams \<and> (\<forall>m\<in>set (matches_v3 w'). table_assigned m = None)"
proof -
  obtain res ms1 teams1 where
    a: "assign_tables_to_matches w (matches_v3 w) [0..<n] teams = (res, ms1, teams1)"
    by (metis prod_cases3)
  from assign_tables_to_matches_unassigned [OF a assms(2)]
  have eq: "map table_assigned ms1 = map table_assigned (matches_v3 w)" and t: "teams1 = teams"
    by simp_all
  from eq assms(2) have un: "\<forall>m\<in>set ms1. table_assigned m = None"
    by (metis (no_types, lifting) image_iff list.set_map)
  from assms(1,3) a have "teams' = teams1 \<and> matches_v3 w' = ms1"
    by (cases res) (auto simp: assign_tables_v3_def)
  with t un show ?thesis by simp
qed

text \<open>
  Claim C5, as amended. In v1 and v2, when \<^verbatim>\<open>assign_tables\<close> completes, every match
  without the bye team holds a table; when it raises at a match, the matches before
  that one keep the tables they were given, and that match and the later ones are as
  they were. In both cases, for a week whose matches enter unassigned, the tables are
  the tables from before the week with the entries of \<^verbatim>\<open>Table.add_team\<close> for exactly
  the matches that hold a table: nothing is rolled back. In v3, a week after the first
  whose matches enter unassigned leaves every match unassigned and every team as it
  was, whatever the outcome of the search.
\<close>

theorem week_assignment_outcomes:
  "(assign_tables w ts order = (None, w', ts') \<longrightarrow>
      assigned_in_place (bye_team_id w) (matches w) (matches w'))
 \<and> (assign_tables w ts order = (Some e, w', ts') \<longrightarrow>
      (\<exists>done m rest done'.
         matches w = done @ m # rest \<and> matches w' = done' @ m # rest
         \<and> \<not> has_bye m (bye_team_id w) \<and> assigned_in_place (bye_team_id w) done done'))
 \<and> (assign_tables_v2 wb ts order = (None, wb', ts') \<longrightarrow>
      assigned_in_place (bye_team_id_v2 wb) (matches_v2 wb) (matches_v2 wb'))
 \<and> (assign_tables_v2 wb ts order = (Some e, wb', ts') \<longrightarrow>
      (\<exists>done m rest done'.
         matches_v2 wb = done @ m # rest \<and> matches_v2 wb' = done' @ m # rest
         \<and> \<not> has_bye m (bye_team_id_v2 wb) \<and> assigned_in_place (bye_team_id_v2 wb) done done'))
 \<and> (week_id_v3 wc \<noteq> ''1'' \<and> (\<forall>m\<in>set (matches_v3 wc). table_assigned m = None)
      \<and> assign_tables_v3 wc n teams st sm = (ec, warned, wc', teams') \<longrightarrow>
      teams' = teams \<and> (\<forall>m\<in>set (matches_v3 wc'). table_assigned m = None))
 \<and> ((\<forall>m\<in>set (matches w). assigned_table m = None)
      \<and> assign_tables w ts order = (eo, w', ts') \<longrightarrow>
      ts' = record_matches (matches w') ts)
 \<and> ((\<forall>m\<in>set (matches_v2 wb). assigned_table m = None)
      \<and> assign_tables_v2 wb ts order = (eo, wb', ts') \<longrightarrow>
      ts' = record_matches (matches_v2 wb') ts)"
proof -
  note a = assign_tables_outcome [of w ts order w' ts' e]
  note b = assign_tables_v2_outcome [of wb ts order wb' ts' e]
  have c: "week_id_v3 wc \<noteq> ''1'' \<and> (\<forall>m\<in>set (matches_v3 wc). table_assigned m = None)
      \<and> assign_tables_v3 wc n teams st sm = (ec, warned, wc', teams') \<longrightarrow>
      teams' = teams \<and> (\<forall>m\<in>set (matches_v3 wc'). table_assigned m = None)"
  proof (intro impI, elim conjE)
    assume "week_id_v3 wc \<noteq> ''1''" "\<forall>m\<in>set (matches_v3 wc). table_assigned m = None"
      "assign_tables_v3 wc n teams st sm = (ec, warned, wc', teams')"
    then show "teams' = teams \<and> (\<forall>m\<in>set (matches_v3 wc'). table_assigned m = None)"
      by (rule assign_tables_v3_later_week)
  qed
  have d: "(\<forall>m\<in>set (matches w). assigned_table m = None)
      \<and> assign_tables w ts order = (eo, w', ts') \<longrightarrow>
      ts' = record_matches (matches w') ts"
  proof (intro impI, elim conjE)
    assume "\<forall>m\<in>set (matches w). assigned_table m = None"
      "assign_tables w ts order = (eo, w', ts')"
    then show "ts' = record_matches (matches w') ts" by (rule assign_tables_ledger)
  qed
  have f: "(\<forall>m\<in>set (matches_v2 wb). assigned_table m = None)
      \<and> assign_tables_v2 wb ts order = (eo, wb', ts') \<longrightarrow>
      ts' = record_matches (matches_v2 wb') ts"
  proof (intro impI, elim conjE)
    assume "\<forall>m\<in>set (matches_v2 wb). assigned_table m = None"
      "assign_tables_v2 wb ts order = (eo, wb', ts')"
    then show "ts' = record_matches (matches_v2 wb') ts" by (rule assign_tables_v2_ledger)
  qed
  from conjunct1 [OF a] conjunct2 [OF a] conjunct1 [OF b] conjunct2 [OF b] c d f
  show ?thesis by (intro conjI)
qed

theorem week_assignment_outcomes_witness:
  "fst (assign_tables (Week_init 1 ''1/7'' [(3, 4)] (Some 4) 4 2)
          [Table_init ''A'', Table_init ''B''] [0, 1]) = None
   \<and> assigned_in_place (bye_team_id (Week_init 1 ''1/7'' [(3, 4)] (Some 4) 4 2))
        (matches (Week_init 1 ''1/7'' [(3, 4)] (Some 4) 4 2))
        (matches (fst (snd (assign_tables (Week_init 1 ''1/7'' [(3, 4)] (Some 4) 4 2)
          [Table_init ''A'', Table_init ''B''] [0, 1]))))
   \<and> fst (assign_tables (Week_init 1 ''1/7'' [(1, 2), (3, 4)] None 4 2)
          [Table_init ''A'', Table_init ''B''] [0, 1]) = Some AttributeError
   \<and> (\<exists>done m rest done'.
         matches (Week_init 1 ''1/7'' [(1, 2), (3, 4)] None 4 2) = done @ m # rest
         \<and> matches (fst (snd (assign_tables (Week_init 1 ''1/7'' [(1, 2), (3, 4)] None 4 2)
              [Table_init ''A'', Table_init ''B''] [0, 1]))) = done' @ m # rest
         \<and> \<not> has_bye m (bye_team_id (Week_init 1 ''1/7'' [(1, 2), (3, 4)] None 4 2))
         \<and> assigned_in_place (bye_team_id (Week_init 1 ''1/7'' [(1, 2), (3, 4)] None 4 2)) done done')
   \<and> fst (assign_tables_v2 (Week_v2_init 1 ''1/7'' [(1, 2), (3, 4)] None 4)
          [Table_init ''A'', Table_init ''B''] [0, 1]) = None
   \<and> assigned_in_place (bye_team_id_v2 (Week_v2_init 1 ''1/7'' [(1, 2), (3, 4)] None 4))
        (matches_v2 (Week_v2_init 1 ''1/7'' [(1, 2), (3, 4)] None 4))
        (matches_v2 (fst (snd (assign_tables_v2 (Week_v2_init 1 ''1/7'' [(1, 2), (3, 4)] None 4)
          [Table_init ''A'', Table_init ''B''] [0, 1]))))
   \<and> fst (assign_tables_v2 (Week_v2_init 2 ''1/14'' [(1, 3), (2, 5), (4, 6)] None 6)
          [Table_init ''A'', Table_init ''B''] [0, 1]) = Some ValueError
   \<and> (\<exists>done m rest done'.
         matches_v2 (Week_v2_init 2 ''1/14'' [(1, 3), (2, 5), (4, 6)] None 6) = done @ m # rest
         \<and> matches_v2 (fst (snd (assign_tables_v2 (Week_v2_init 2 ''1/14'' [(1, 3), (2, 5), (4, 6)] None 6)
              [Table_init ''A'', Table_init ''B''] [0, 1]))) = done' @ m # rest
         \<and> \<not> has_bye m (bye_team_id_v2 (Week_v2_init 2 ''1/14'' [(1, 3), (2, 5), (4, 6)] None 6))
         \<and> assigned_in_place (bye_team_id_v2 (Week_v2_init 2 ''1/14'' [(1, 3), (2, 5), (4, 6)] None 6))
              done done')
   \<and> week_id_v3 (Week_v3_init ''2'' ''1/14'' [Match_v3_init 0 1, Match_v3_init 2 3] None) \<noteq> ''1''
   \<and> snd (snd (snd (assign_tables_v3
          (Week_v3_init ''2'' ''1/14'' [Match_v3_init 0 1, Match_v3_init 2 3] None) 1
          [Team_init 1 ''a'', Team_init 2 ''b'', Team_init 3 ''c'', Team_init 4 ''d''] [0] [])))
        = [Team_init 1 ''a'', Team_init 2 ''b'', Team_init 3 ''c'', Team_init 4 ''d'']
   \<and> list_all (\<lambda>m. table_assigned m = None)
        (matches_v3 (fst (snd (snd (assign_tables_v3
          (Week_v3_init ''2'' ''1/14'' [Match_v3_init 0 1, Match_v3_init 2 3] None) 1
          [Team_init 1 ''a'', Team_init 2 ''b'', Team_init 3 ''c'', Team_init 4 ''d''] [0] [])))))
   \<and> snd (snd (assign_tables (Week_init 1 ''1/7'' [(1, 2), (3, 4)] None 4 2)
          [Table_init ''A'', Table_init ''B''] [0, 1]))
        = record_matches
            (matches (fst (snd (assign_tables (Week_init 1 ''1/7'' [(1, 2), (3, 4)] None 4 2)
               [Table_init ''A'', Table_init ''B''] [0, 1]))))
            [Table_init ''A'', Table_init ''B'']
   \<and> snd (snd (assign_tables_v2 (Week_v2_init 2 ''1/14'' [(1, 3), (2, 5), (4, 6)] None 6)
          [Table_init ''A'', Table_init ''B''] [0, 1]))
        = record_matches
            (matches_v2 (fst (snd (assign_tables_v2 (Week_v2_init 2 ''1/14'' [(1, 3), (2, 5), (4, 6)] None 6)
               [Table_init ''A'', Table_init ''B''] [0, 1]))))
            [Table_init ''A'', Table_init ''B'']
   \<and> map last_used_by
        (record_matches
            (matches_v2 (fst (snd (assign_tables_v2 (Week_v2_init 2 ''1/14'' [(1, 3), (2, 5), (4, 6)] None 6)
               [Table_init ''A'', Table_init ''B''] [0, 1]))))
            [Table_init ''A'', Table_init ''B''])
        = [[1, 3], [2, 5]]"
proof -
  let ?ts = "[Table_init ''A'', Table_init ''B'']"
  let ?wa = "Week_init 1 ''1/7'' [(3, 4)] (Some 4) 4 2"
  let ?wf = "Week_init 1 ''1/7'' [(1, 2), (3, 4)] None 4 2"
  let ?wb = "Week_v2_init 1 ''1/7'' [(1, 2), (3, 4)] None 4"
  let ?wg = "Week_v2_init 2 ''1/14'' [(1, 3), (2, 5), (4, 6)] None 6"
  let ?wc = "Week_v3_init ''2'' ''1/14'' [Match_v3_init 0 1, Match_v3_init 2 3] None"
  let ?teams = "[Team_init 1 ''a'', Team_init 2 ''b'', Team_init 3 ''c'', Team_init 4 ''d'']"
  let ?A = "assign_tables ?wa ?ts [0, 1]"
  let ?F = "assign_tables ?wf ?ts [0, 1]"
  let ?B = "assign_tables_v2 ?wb ?ts [0, 1]"
  let ?G = "assign_tables_v2 ?wg ?ts [0, 1]"
  let ?C = "assign_tables_v3 ?wc 1 ?teams [0] []"
  have a1: "fst ?A = None" by code_simp
  have f1: "fst ?F = Some AttributeError" by code_simp
  have b1: "fst ?B = None" by code_simp
  have g1: "fst ?G = Some ValueError" by code_simp
  have g2: "map last_used_by (record_matches (matches_v2 (fst (snd ?G))) ?ts) = [[1, 3], [2, 5]]"
    by code_simp
  have A: "?A = (None, fst (snd ?A), snd (snd ?A))" unfolding a1 [symmetric] by simp
  have F: "?F = (Some AttributeError, fst (snd ?F), snd (snd ?F))" unfolding f1 [symmetric] by simp
  have B: "?B = (None, fst (snd ?B), snd (snd ?B))" unfolding b1 [symmetric] by simp
  have G: "?G = (Some ValueError, fst (snd ?G), snd (snd ?G))" unfolding g1 [symmetric] by simp
  have C: "?C = (fst ?C, fst (snd ?C), fst (snd (snd ?C)), snd (snd (snd ?C)))" by simp
  have hc1: "week_id_v3 ?wc \<noteq> ''1''" by (simp add: Week_v3_init_def)
  have hc2: "\<forall>m\<in>set (matches_v3 ?wc). table_assigned m = None"
    by (simp add: Week_v3_init_def Match_v3_init_def)
  have hf: "\<forall>m\<in>set (matches ?wf). assigned_table m = None"
    by (simp add: Week_init_def Match_init_def)
  have hg: "\<forall>m\<in>set (matches_v2 ?wg). assigned_table m = None"
    by (simp add: Week_v2_init_def Match_init_def)
  note ta = week_assignment_outcomes [where w = ?wa and ts = ?ts and order = "[0, 1]"
      and w' = "fst (snd ?A)" and ts' = "snd (snd ?A)"]
  note tf = week_assignment_outcomes [where w = ?wf and ts = ?ts and order = "[0, 1]"
      and w' = "fst (snd ?F)" and ts' = "snd (snd ?F)" and e = AttributeError
      and eo = "Some AttributeError"]
  note tb = week_assignment_outcomes [where wb = ?wb and ts = ?ts and order = "[0, 1]"
      and wb' = "fst (snd ?B)" and ts' = "snd (snd ?B)"]
  note tg = week_assignment_outcomes [where wb = ?wg and ts = ?ts and order = "[0, 1]"
      and wb' = "fst (snd ?G)" and ts' = "snd (snd ?G)" and e = ValueError
      and eo = "Some ValueError"]
  note tc = week_assignment_outcomes [where wc = ?wc and n = 1 and teams = ?teams and st = "[0]"
      and sm = "[]" and ec = "fst ?C" and warned = "fst (snd ?C)" and wc' = "fst (snd (snd ?C))"
      and teams' = "snd (snd (snd ?C))"]
  note ca = mp [OF ta [THEN conjunct1] A]
  note cf = mp [OF tf [THEN conjunct2, THEN conjunct1] F]
  note cb = mp [OF tb [THEN conjunct2, THEN conjunct2, THEN conjunct1] B]
  note cg = mp [OF tg [THEN conjunct2, THEN conjunct2, THEN conjunct2, THEN conjunct1] G]
  note cc = mp [OF tc [THEN conjunct2, THEN conjunct2, THEN conjunct2, THEN conjunct2, THEN conjunct1]
      conjI [OF hc1 conjI [OF hc2 C]]]
  note cc1 = cc [THEN conjunct1]
  have cc2: "list_all (\<lambda>m. table_assigned m = None) (matches_v3 (fst (snd (snd ?C))))"
    unfolding list_all_iff by (rule cc [THEN conjunct2])
  note cd = mp [OF tf [THEN conjunct2, THEN conjunct2, THEN conjunct2, THEN conjunct2,
        THEN conjunct2, THEN conjunct1] conjI [OF hf F]]
  note ce = mp [OF tg [THEN conjunct2, THEN conjunct2, THEN conjunct2, THEN conjunct2,
        THEN conjunct2, THEN conjunct2] conjI [OF hg G]]
  from a1 ca f1 cf b1 cb g1 cg hc1 cc1 cc2 cd ce g2 show ?thesis by (intro conjI)
qed

text \<open>The claim as it stands fails. In v2, with two tables and a week of three matches,
  the third match finds no table and \<^verbatim>\<open>assign_tables\<close> raises; the first two matches
  keep their tables and the tables keep the four teams in \<^verbatim>\<open>last_used_by\<close> and in the
  usage counts. In v3, the first week with one match raises inside
  \<^verbatim>\<open>Match.assign_table\<close> after \<^verbatim>\<open>table_assigned\<close> was set, and the match keeps the
  table.\<close>

theorem failed_week_keeps_assignments:
  "fst (assign_tables_v2 (Week_v2_init 2 ''1/14'' [(1, 3), (2, 5), (4, 6)] None 6)
          [Table_init ''A'', Table_init ''B''] [0, 1]) = Some ValueError
   \<and> map assigned_table (matches_v2 (fst (snd (assign_tables_v2
          (Week_v2_init 2 ''1/14'' [(1, 3), (2, 5), (4, 6)] None 6)
          [Table_init ''A'', Table_init ''B''] [0, 1]))))
        = [Some 0, Some 1, None]
   \<and> map last_used_by (snd (snd (assign_tables_v2
          (Week_v2_init 2 ''1/14'' [(1, 3), (2, 5), (4, 6)] None 6)
          [Table_init ''A'', Table_init ''B''] [0, 1])))
        = [[1, 3], [2, 5]]
   \<and> map (\<lambda>t. get_usage t 1) (snd (snd (assign_tables_v2
          (Week_v2_init 2 ''1/14'' [(1, 3), (2, 5), (4, 6)] None 6)
          [Table_init ''A'', Table_init ''B''] [0, 1])))
        = [1, 0]
   \<and> assign_tables_v3 (Week_v3_init ''1'' ''1/7'' [Match_v3_init 0 1] None) 1
        [Team_init 1 ''a'', Team_init 2 ''b''] [0] [Match_v3_init 0 1]
       = (Some AttributeError, False,
          (Week_v3_init ''1'' ''1/7'' [Match_v3_init 0 1] None)
             \<lparr>matches_v3 := [(Match_v3_init 0 1)\<lparr>table_assigned := Some 0\<rparr>]\<rparr>,
          [Team_init 1 ''a'', Team_init 2 ''b''])"
proof -
  let ?G = "assign_tables_v2 (Week_v2_init 2 ''1/14'' [(1, 3), (2, 5), (4, 6)] None 6)
          [Table_init ''A'', Table_init ''B''] [0, 1]"
  have g1: "fst ?G = Some ValueError" by code_simp
  have g2: "map assigned_table (matches_v2 (fst (snd ?G))) = [Some 0, Some 1, None]" by code_simp
  have g3: "map last_used_by (snd (snd ?G)) = [[1, 3], [2, 5]]" by code_simp
  have g4: "map (\<lambda>t. get_usage t 1) (snd (snd ?G)) = [1, 0]" by code_simp
  have c: "assign_tables_v3 (Week_v3_init ''1'' ''1/7'' [Match_v3_init 0 1] None) 1
        [Team_init 1 ''a'', Team_init 2 ''b''] [0] [Match_v3_init 0 1]
       = (Some AttributeError, False,
          (Week_v3_init ''1'' ''1/7'' [Match_v3_init 0 1] None)
             \<lparr>matches_v3 := [(Match_v3_init 0 1)\<lparr>table_assigned := Some 0\<rparr>]\<rparr>,
          [Team_init 1 ''a'', Team_init 2 ''b''])"
    by (simp add: assign_tables_v3_def Week_v3_init_def assign_table_v3_def history_append_def
        Team_init_def Match_v3_init_def)
  from g1 g2 g3 g4 c show ?thesis by (intro conjI)
qed

section \<open>The rule against playing the same table twice in a row\<close>






section \<open>What decides between equally good tables\<close>

lemma score_less_trans: "score_less a b \<Longrightarrow> score_less b c \<Longrightarrow> score_less a c"
  by (cases a, cases b, cases c) (auto simp: score_less_def)

lemma score_less_le: "score_less a b \<Longrightarrow> \<not> score_less c b \<Longrightarrow> score_less a c"
  by (cases a, cases b, cases c) (auto simp: score_less_def)

lemma score_le_trans: "\<not> score_less b a \<Longrightarrow> \<not> score_less c b \<Longrightarrow> \<not> score_less c a"
  by (cases a, cases b, cases c) (auto simp: score_less_def)

lemma min_by_score_first_minimal:
  "\<exists>pre post. b # xs = pre @ min_by_score b xs # post
      \<and> (\<forall>y\<in>set pre. score_less (snd (min_by_score b xs)) (snd y))
      \<and> (\<forall>y\<in>set post. \<not> score_less (snd y) (snd (min_by_score b xs)))"
proof (induction xs arbitrary: b)
  case Nil
  have "[b] = [] @ min_by_score b [] # []" by simp
  then show ?case by fastforce
next
  case (Cons x xs)
  define c where "c = (if score_less (snd x) (snd b) then x else b)"
  define r where "r = min_by_score c xs"
  have res: "min_by_score b (x # xs) = r" by (simp add: r_def c_def)
  from Cons.IH [of c] obtain pre post where
    l: "c # xs = pre @ r # post" and
    p: "\<forall>y\<in>set pre. score_less (snd r) (snd y)" and
    q: "\<forall>y\<in>set post. \<not> score_less (snd y) (snd r)"
    unfolding r_def by blast
  have goal: "\<exists>pre post. b # x # xs = pre @ r # post
      \<and> (\<forall>y\<in>set pre. score_less (snd r) (snd y))
      \<and> (\<forall>y\<in>set post. \<not> score_less (snd y) (snd r))"
  proof (cases pre)
    case Nil
    with l have rc: "r = c" and post: "post = xs" by simp_all
    show ?thesis
    proof (cases "score_less (snd x) (snd b)")
      case True
      with rc have rx: "r = x" by (simp add: c_def)
      have "b # x # xs = [b] @ r # xs" by (simp add: rx)
      moreover have "\<forall>y\<in>set [b]. score_less (snd r) (snd y)" using True rx by simp
      moreover have "\<forall>y\<in>set xs. \<not> score_less (snd y) (snd r)" using q post by simp
      ultimately show ?thesis by blast
    next
      case False
      with rc have rx: "r = b" by (simp add: c_def)
      have "b # x # xs = [] @ r # (x # xs)" by (simp add: rx)
      moreover have "\<forall>y\<in>set (x # xs). \<not> score_less (snd y) (snd r)"
        using q post False rx by simp
      ultimately show ?thesis by fastforce
    qed
  next
    case (Cons d pre')
    with l have d: "d = c" and xs: "xs = pre' @ r # post" by simp_all
    from p Cons d have rb: "score_less (snd r) (snd c)" by simp
    have "score_less (snd r) (snd b) \<and> score_less (snd r) (snd x)"
    proof (cases "score_less (snd x) (snd b)")
      case True
      with rb have "score_less (snd r) (snd x)" by (simp add: c_def)
      with True show ?thesis by (auto intro: score_less_trans)
    next
      case False
      with rb have "score_less (snd r) (snd b)" by (simp add: c_def)
      with False show ?thesis by (auto intro: score_less_le)
    qed
    moreover have "b # x # xs = (b # x # pre') @ r # post" using xs by simp
    moreover have "\<forall>y\<in>set pre'. score_less (snd r) (snd y)" using p Cons by simp
    ultimately have "b # x # xs = (b # x # pre') @ r # post
        \<and> (\<forall>y\<in>set (b # x # pre'). score_less (snd r) (snd y))
        \<and> (\<forall>y\<in>set post. \<not> score_less (snd y) (snd r))"
      using q by simp
    then show ?thesis by blast
  qed
  show ?case unfolding res by (rule goal)
qed

lemma mapM_tagged_values:
  "mapM (\<lambda>r. case f r of Inl e \<Rightarrow> Inl e | Inr v \<Rightarrow> Inr (r, v)) xs = Inr ys \<Longrightarrow>
     \<forall>y\<in>set ys. f (fst y) = Inr (snd y)"
  by (induction xs arbitrary: ys) (auto split: sum.splits)

lemma find_best_table_v2_first_minimal:
  assumes "find_best_table_v2 w ts m = Inr (Some r)"
  shows "\<exists>pre post v.
           available_tables_v2 w = pre @ r # post \<and> current_value (ts ! r) m = Inr v
           \<and> (\<forall>r'\<in>set pre. \<exists>v'. current_value (ts ! r') m = Inr v' \<and> score_less v v')
           \<and> (\<forall>r'\<in>set post. \<exists>v'. current_value (ts ! r') m = Inr v' \<and> \<not> score_less v' v)"
proof -
  let ?f = "\<lambda>r. current_value (ts ! r) m"
  from assms obtain s ss where
    sc: "mapM (\<lambda>r. case ?f r of Inl e \<Rightarrow> Inl e | Inr v \<Rightarrow> Inr (r, v)) (available_tables_v2 w)
           = Inr (s # ss)"
    and r: "r = fst (min_by_score s ss)"
    by (auto simp: find_best_table_v2_def split: if_splits sum.splits list.splits)
  note av = mapM_tagged [OF sc]
  note vals = mapM_tagged_values [OF sc]
  let ?x = "min_by_score s ss"
  from min_by_score_first_minimal [of s ss] obtain pre post where
    l: "s # ss = pre @ ?x # post" and
    p: "\<forall>y\<in>set pre. score_less (snd ?x) (snd y)" and
    q: "\<forall>y\<in>set post. \<not> score_less (snd y) (snd ?x)"
    by blast
  from av l have a: "available_tables_v2 w = map fst pre @ r # map fst post"
    by (simp add: r)
  from vals l have vx: "?f r = Inr (snd ?x)" by (simp add: r)
  from vals l have vp: "\<forall>y\<in>set pre. ?f (fst y) = Inr (snd y)"
    and vq: "\<forall>y\<in>set post. ?f (fst y) = Inr (snd y)" by simp_all
  have "\<forall>r'\<in>set (map fst pre). \<exists>v'. ?f r' = Inr v' \<and> score_less (snd ?x) v'"
    using p vp by auto
  moreover have "\<forall>r'\<in>set (map fst post). \<exists>v'. ?f r' = Inr v' \<and> \<not> score_less v' (snd ?x)"
    using q vq by auto
  ultimately show ?thesis using a vx by blast
qed

lemma assign_first_week_teams:
  "assign_first_week ms av teams = (e, ms', teams') \<Longrightarrow>
     teams_of_matches ms' = teams_of_matches ms"
proof (induction ms arbitrary: av teams e ms' teams')
  case Nil
  then show ?case by simp
next
  case (Cons m ms)
  show ?case
  proof (cases "av = []")
    case True
    with Cons.prems show ?thesis by simp
  next
    case False
    obtain e1 m1 teams1 where a: "assign_table_v3 m (last av) teams = (e1, m1, teams1)"
      by (metis prod_cases3)
    then have m1: "m1 = m\<lparr>table_assigned := Some (last av)\<rparr>"
      by (auto simp: assign_table_v3_def Let_def split: sum.splits)
    show ?thesis
    proof (cases e1)
      case (Some err)
      with Cons.prems False a m1 show ?thesis by (auto simp: teams_of_matches_def)
    next
      case None
      obtain e2 ms2 teams2 where l: "assign_first_week ms (butlast av) teams1 = (e2, ms2, teams2)"
        by (metis prod_cases3)
      with Cons.prems False a None have "ms' = m1 # ms2" by simp
      with Cons.IH [OF l] m1 show ?thesis by (simp add: teams_of_matches_def)
    qed
  qed
qed


text \<open>
  Claim C4, as amended. In the first week of v3 the matches are taken in their shuffled
  order and, as far as the loop gets before an exception ends it, the match at position
  \<open>i\<close> holds the table at position \<open>i\<close> from the end of the shuffled list of tables;
  the matches behind are as the shuffle left them, and without an exception the loop
  gets through all matches. On the teams and matches as the constructors leave them,
  with a table and a match, the loop gets as far as the first match of the shuffled
  list: that match holds the last table of the shuffled list, and the week ends in
  \<^verbatim>\<open>AttributeError\<close>. The later weeks of v3 do not read the shuffles. In v2 the table
  found for a match has a ranking value that no available table beats, and among the
  tables with this value it is the first in the order in which Python iterates over the
  set of available tables.
\<close>

theorem assignment_follows_shuffles_and_set_order:
  "(week_id_v3 wc = ''1'' \<and> assign_tables_v3 wc n teams st sm = (e, warned, wc', teams') \<longrightarrow>
      teams_of_matches (matches_v3 wc') = teams_of_matches sm
      \<and> (\<exists>k. k \<le> length sm \<and> k \<le> length st
             \<and> map table_assigned (take k (matches_v3 wc')) = map Some (take k (rev st))
             \<and> drop k (matches_v3 wc') = drop k sm
             \<and> (e = None \<longrightarrow> k = length sm)))
 \<and> (week_id_v3 wc = ''1'' \<and> built_v3 teams (mc # rest) \<and> st \<noteq> [] \<longrightarrow>
      assign_tables_v3 wc n teams st (mc # rest)
        = (Some AttributeError, False,
           wc\<lparr>matches_v3 := mc\<lparr>table_assigned := Some (last st)\<rparr> # rest\<rparr>, teams))
 \<and> (week_id_v3 wc \<noteq> ''1'' \<longrightarrow>
      assign_tables_v3 wc n teams st sm = assign_tables_v3 wc n teams st' sm')
 \<and> (find_best_table_v2 wb ts m = Inr (Some r) \<longrightarrow>
      (\<exists>pre post v.
         available_tables_v2 wb = pre @ r # post \<and> current_value (ts ! r) m = Inr v
         \<and> (\<forall>r'\<in>set pre. \<exists>v'. current_value (ts ! r') m = Inr v' \<and> score_less v v')
         \<and> (\<forall>r'\<in>set post. \<exists>v'. current_value (ts ! r') m = Inr v' \<and> \<not> score_less v' v)))"
proof (intro conjI impI)
  assume a: "week_id_v3 wc = ''1'' \<and> assign_tables_v3 wc n teams st sm = (e, warned, wc', teams')"
  obtain e1 ms' teams1 where f: "assign_first_week sm st teams = (e1, ms', teams1)"
    by (metis prod_cases3)
  from a have w: "week_id_v3 wc = ''1''"
    and run: "assign_tables_v3 wc n teams st sm = (e, warned, wc', teams')" by simp_all
  from w f run have e: "e = e1" and res: "matches_v3 wc' = ms'"
    by (auto simp: assign_tables_v3_def)
  show "teams_of_matches (matches_v3 wc') = teams_of_matches sm"
    unfolding res by (rule assign_first_week_teams [OF f])
  show "\<exists>k. k \<le> length sm \<and> k \<le> length st
             \<and> map table_assigned (take k (matches_v3 wc')) = map Some (take k (rev st))
             \<and> drop k (matches_v3 wc') = drop k sm
             \<and> (e = None \<longrightarrow> k = length sm)"
    unfolding res e by (rule assign_first_week_progress [OF f])
next
  assume a: "week_id_v3 wc = ''1'' \<and> built_v3 teams (mc # rest) \<and> st \<noteq> []"
  then have w: "week_id_v3 wc = ''1''" and b: "built_v3 teams (mc # rest)" and s: "st \<noteq> []"
    by simp_all
  from built_first_week [OF b s] w
  show "assign_tables_v3 wc n teams st (mc # rest)
        = (Some AttributeError, False,
           wc\<lparr>matches_v3 := mc\<lparr>table_assigned := Some (last st)\<rparr> # rest\<rparr>, teams)"
    by (simp add: assign_tables_v3_def)
next
  assume "week_id_v3 wc \<noteq> ''1''"
  then show "assign_tables_v3 wc n teams st sm = assign_tables_v3 wc n teams st' sm'"
    by (simp add: assign_tables_v3_def)
next
  assume "find_best_table_v2 wb ts m = Inr (Some r)"
  then show "\<exists>pre post v.
         available_tables_v2 wb = pre @ r # post \<and> current_value (ts ! r) m = Inr v
         \<and> (\<forall>r'\<in>set pre. \<exists>v'. current_value (ts ! r') m = Inr v' \<and> score_less v v')
         \<and> (\<forall>r'\<in>set post. \<exists>v'. current_value (ts ! r') m = Inr v' \<and> \<not> score_less v' v)"
    by (rule find_best_table_v2_first_minimal)
qed

theorem assignment_follows_shuffles_and_set_order_witness:
  "week_id_v3 (Week_v3_init ''1'' ''1/7'' [Match_v3_init 0 1, Match_v3_init 2 3] None) = ''1''
   \<and> assign_tables_v3 (Week_v3_init ''1'' ''1/7'' [Match_v3_init 0 1, Match_v3_init 2 3] None) 3
        [Team_init 1 ''a'', Team_init 2 ''b'', Team_init 3 ''c'', Team_init 4 ''d'']
        [2, 0, 1] [Match_v3_init 2 3, Match_v3_init 0 1]
       = (Some AttributeError, False,
          (Week_v3_init ''1'' ''1/7'' [Match_v3_init 0 1, Match_v3_init 2 3] None)
             \<lparr>matches_v3 := [(Match_v3_init 2 3)\<lparr>table_assigned := Some 1\<rparr>, Match_v3_init 0 1]\<rparr>,
          [Team_init 1 ''a'', Team_init 2 ''b'', Team_init 3 ''c'', Team_init 4 ''d''])
   \<and> teams_of_matches [(Match_v3_init 2 3)\<lparr>table_assigned := Some 1\<rparr>, Match_v3_init 0 1]
       = teams_of_matches [Match_v3_init 2 3, Match_v3_init 0 1]
   \<and> (\<exists>k. k \<le> length [Match_v3_init 2 3, Match_v3_init 0 1] \<and> k \<le> length [2, 0, 1 :: nat]
          \<and> map table_assigned (take k [(Match_v3_init 2 3)\<lparr>table_assigned := Some 1\<rparr>, Match_v3_init 0 1])
              = map Some (take k (rev [2, 0, 1]))
          \<and> drop k [(Match_v3_init 2 3)\<lparr>table_assigned := Some 1\<rparr>, Match_v3_init 0 1]
              = drop k [Match_v3_init 2 3, Match_v3_init 0 1])
   \<and> week_id_v3 (Week_v3_init ''2'' ''1/14'' [Match_v3_init 0 1] None) \<noteq> ''1''
   \<and> assign_tables_v3 (Week_v3_init ''2'' ''1/14'' [Match_v3_init 0 1] None) 2
          [Team_init 1 ''a'', Team_init 2 ''b''] [0, 1] [Match_v3_init 0 1]
        = assign_tables_v3 (Week_v3_init ''2'' ''1/14'' [Match_v3_init 0 1] None) 2
          [Team_init 1 ''a'', Team_init 2 ''b''] [1, 0] [Match_v3_init 0 1]
   \<and> map last_used_by (snd (snd (assign_tables_v2 (Week_v2_init 1 ''1/7'' [(1, 2), (3, 4)] None 4)
          [Table_init ''A'', Table_init ''B''] [0, 1]))) = [[1, 2], [3, 4]]
   \<and> find_best_table_v2 ((Week_v2_init 2 ''1/14'' [(1, 3)] None 4)\<lparr>available_tables_v2 := [1, 0]\<rparr>)
        (snd (snd (assign_tables_v2 (Week_v2_init 1 ''1/7'' [(1, 2), (3, 4)] None 4)
          [Table_init ''A'', Table_init ''B''] [0, 1])))
        (Match_init (1, 3)) = Inr (Some 1)
   \<and> (\<exists>pre post v.
         available_tables_v2 ((Week_v2_init 2 ''1/14'' [(1, 3)] None 4)\<lparr>available_tables_v2 := [1, 0]\<rparr>)
           = pre @ 1 # post
         \<and> current_value
             (snd (snd (assign_tables_v2 (Week_v2_init 1 ''1/7'' [(1, 2), (3, 4)] None 4)
                [Table_init ''A'', Table_init ''B''] [0, 1])) ! 1)
             (Match_init (1, 3)) = Inr v
         \<and> (\<forall>r'\<in>set pre. \<exists>v'.
               current_value
                 (snd (snd (assign_tables_v2 (Week_v2_init 1 ''1/7'' [(1, 2), (3, 4)] None 4)
                    [Table_init ''A'', Table_init ''B''] [0, 1])) ! r')
                 (Match_init (1, 3)) = Inr v' \<and> score_less v v')
         \<and> (\<forall>r'\<in>set post. \<exists>v'.
               current_value
                 (snd (snd (assign_tables_v2 (Week_v2_init 1 ''1/7'' [(1, 2), (3, 4)] None 4)
                    [Table_init ''A'', Table_init ''B''] [0, 1])) ! r')
                 (Match_init (1, 3)) = Inr v' \<and> \<not> score_less v' v))"
proof -
  let ?wc = "Week_v3_init ''1'' ''1/7'' [Match_v3_init 0 1, Match_v3_init 2 3] None"
  let ?teams = "[Team_init 1 ''a'', Team_init 2 ''b'', Team_init 3 ''c'', Team_init 4 ''d'']"
  let ?sm = "[Match_v3_init 2 3, Match_v3_init 0 1]"
  let ?ms' = "[(Match_v3_init 2 3)\<lparr>table_assigned := Some 1\<rparr>, Match_v3_init 0 1]"
  let ?wd = "Week_v3_init ''2'' ''1/14'' [Match_v3_init 0 1] None"
  let ?wb = "(Week_v2_init 2 ''1/14'' [(1, 3)] None 4)\<lparr>available_tables_v2 := [1, 0]\<rparr>"
  let ?ts = "snd (snd (assign_tables_v2 (Week_v2_init 1 ''1/7'' [(1, 2), (3, 4)] None 4)
          [Table_init ''A'', Table_init ''B''] [0, 1]))"
  have h1: "week_id_v3 ?wc = ''1''" by (simp add: Week_v3_init_def)
  have hb: "built_v3 ?teams ?sm" by (simp add: built_v3_def Team_init_def Match_v3_init_def)
  have hs: "[2, 0, 1 :: nat] \<noteq> []" by simp
  have h3: "week_id_v3 ?wd \<noteq> ''1''" by (simp add: Week_v3_init_def)
  have h4: "find_best_table_v2 ?wb ?ts (Match_init (1, 3)) = Inr (Some 1)" by code_simp
  have t0: "map last_used_by ?ts = [[1, 2], [3, 4]]" by code_simp
  note t1 = assignment_follows_shuffles_and_set_order [where wc = ?wc and n = 3 and teams = ?teams
      and st = "[2, 0, 1]" and sm = ?sm and mc = "Match_v3_init 2 3" and rest = "[Match_v3_init 0 1]"
      and e = "Some AttributeError" and warned = False and wc' = "?wc\<lparr>matches_v3 := ?ms'\<rparr>"
      and teams' = ?teams]
  note t2 = assignment_follows_shuffles_and_set_order [where wc = ?wd and n = 2
      and teams = "[Team_init 1 ''a'', Team_init 2 ''b'']" and st = "[0, 1]" and sm = "[Match_v3_init 0 1]"
      and st' = "[1, 0]" and sm' = "[Match_v3_init 0 1]"]
  note t3 = assignment_follows_shuffles_and_set_order [where wb = ?wb and ts = ?ts
      and m = "Match_init (1, 3)" and r = 1]
  from mp [OF t1 [THEN conjunct2, THEN conjunct1] conjI [OF h1 conjI [OF hb hs]]]
  have run: "assign_tables_v3 ?wc 3 ?teams [2, 0, 1] ?sm
               = (Some AttributeError, False, ?wc\<lparr>matches_v3 := ?ms'\<rparr>, ?teams)"
    by simp
  note c1 = mp [OF t1 [THEN conjunct1] conjI [OF h1 run]]
  from c1 [THEN conjunct1]
  have c1a: "teams_of_matches ?ms' = teams_of_matches ?sm" by simp
  from c1 [THEN conjunct2]
  have c1b: "\<exists>k. k \<le> length ?sm \<and> k \<le> length [2, 0, 1 :: nat]
          \<and> map table_assigned (take k ?ms') = map Some (take k (rev [2, 0, 1]))
          \<and> drop k ?ms' = drop k ?sm"
    by auto
  note c2 = mp [OF t2 [THEN conjunct2, THEN conjunct2, THEN conjunct1] h3]
  note c3 = mp [OF t3 [THEN conjunct2, THEN conjunct2, THEN conjunct2] h4]
  from h1 run c1a c1b h3 c2 t0 h4 c3 show ?thesis by (intro conjI)
qed

text \<open>The claim as it stands fails: two runs over the same input differ. In the first
  week of v3 the first match of the shuffled list gets the table that the shuffle put
  last, and it keeps that table when \<^verbatim>\<open>Match.assign_table\<close> raises. In v2 the first
  week's tie between two unused tables goes to the table that the set of available
  tables yields first.\<close>

theorem same_input_different_assignments:
  "shuffle_of [0..<2] [0, 1 :: nat] \<and> shuffle_of [0..<2] [1, 0 :: nat]
   \<and> map table_assigned (matches_v3 (fst (snd (snd (assign_tables_v3
          (Week_v3_init ''1'' ''1/7'' [Match_v3_init 0 1] None) 2
          [Team_init 1 ''a'', Team_init 2 ''b''] [0, 1] [Match_v3_init 0 1])))))
        = [Some 1]
   \<and> map table_assigned (matches_v3 (fst (snd (snd (assign_tables_v3
          (Week_v3_init ''1'' ''1/7'' [Match_v3_init 0 1] None) 2
          [Team_init 1 ''a'', Team_init 2 ''b''] [1, 0] [Match_v3_init 0 1])))))
        = [Some 0]
   \<and> map assigned_table (matches_v2 (fst (snd (assign_tables_v2
          (Week_v2_init 1 ''1/7'' [(1, 2)] None 2) [Table_init ''A'', Table_init ''B''] [0, 1]))))
        = [Some 0]
   \<and> map assigned_table (matches_v2 (fst (snd (assign_tables_v2
          (Week_v2_init 1 ''1/7'' [(1, 2)] None 2) [Table_init ''A'', Table_init ''B''] [1, 0]))))
        = [Some 1]"
proof -
  have s: "shuffle_of [0..<2] [0, 1 :: nat]" "shuffle_of [0..<2] [1, 0 :: nat]"
    by (simp_all add: shuffle_of_def upt_rec)
  have a: "map table_assigned (matches_v3 (fst (snd (snd (assign_tables_v3
          (Week_v3_init ''1'' ''1/7'' [Match_v3_init 0 1] None) 2
          [Team_init 1 ''a'', Team_init 2 ''b''] [0, 1] [Match_v3_init 0 1])))))
        = [Some 1]" by code_simp
  have b: "map table_assigned (matches_v3 (fst (snd (snd (assign_tables_v3
          (Week_v3_init ''1'' ''1/7'' [Match_v3_init 0 1] None) 2
          [Team_init 1 ''a'', Team_init 2 ''b''] [1, 0] [Match_v3_init 0 1])))))
        = [Some 0]" by code_simp
  have e: "map assigned_table (matches_v2 (fst (snd (assign_tables_v2
          (Week_v2_init 1 ''1/7'' [(1, 2)] None 2) [Table_init ''A'', Table_init ''B''] [0, 1]))))
        = [Some 0]" by code_simp
  have f: "map assigned_table (matches_v2 (fst (snd (assign_tables_v2
          (Week_v2_init 1 ''1/7'' [(1, 2)] None 2) [Table_init ''A'', Table_init ''B''] [1, 0]))))
        = [Some 1]" by code_simp
  from s a b e f show ?thesis by (intro conjI)
qed

end
